theory Spec2Isabelle
  imports Complex_Main "HOL-Library.Sublist"
begin

section \<open>JavaScript strings\<close>

text \<open>
  A JavaScript string is a sequence of code units. The development covers the strings whose
  code units lie in the range 0..255 (Latin-1), which is what \<^typ>\<open>char\<close> holds; on that
  range \<open>toLowerCase\<close>, \<open>trim\<close> and the regular-expression classes \<open>\s\<close>, \<open>\d\<close>, \<open>\w\<close> are
  as defined below.
\<close>

definition codeUnit :: "char \<Rightarrow> nat" where
  "codeUnit c = of_char c"

definition isWhiteSpace :: "char \<Rightarrow> bool" where
  \<comment> \<open>WhiteSpace and LineTerminator of ECMAScript below 256: TAB, LF, VT, FF, CR, SP, NBSP.\<close>
  "isWhiteSpace c = (codeUnit c \<in> {9, 10, 11, 12, 13, 32, 160})"

definition isDigit :: "char \<Rightarrow> bool" where
  "isDigit c = (48 \<le> codeUnit c \<and> codeUnit c \<le> 57)"

definition isWordChar :: "char \<Rightarrow> bool" where
  \<comment> \<open>The class \<open>\w\<close>: A-Z, a-z, 0-9 and the underscore.\<close>
  "isWordChar c = ((65 \<le> codeUnit c \<and> codeUnit c \<le> 90) \<or> (97 \<le> codeUnit c \<and> codeUnit c \<le> 122)
                   \<or> isDigit c \<or> codeUnit c = 95)"

definition toLowerChar :: "char \<Rightarrow> char" where
  \<comment> \<open>A-Z and the Latin-1 capitals 192..222 (without the multiplication sign 215) move up by 32.\<close>
  "toLowerChar c =
     (if (65 \<le> codeUnit c \<and> codeUnit c \<le> 90) \<or> (192 \<le> codeUnit c \<and> codeUnit c \<le> 222 \<and> codeUnit c \<noteq> 215)
      then char_of (codeUnit c + 32) else c)"

definition toLowerCase :: "string \<Rightarrow> string" where
  "toLowerCase s = map toLowerChar s"

definition trimStart :: "string \<Rightarrow> string" where
  "trimStart s = dropWhile isWhiteSpace s"

definition trimEnd :: "string \<Rightarrow> string" where
  "trimEnd s = rev (dropWhile isWhiteSpace (rev s))"

definition trim :: "string \<Rightarrow> string" where
  "trim s = trimEnd (trimStart s)"

fun includesStr :: "string \<Rightarrow> string \<Rightarrow> bool" where
  \<comment> \<open>\<open>hay.includes(needle)\<close>\<close>
  "includesStr [] needle = (needle = [])"
| "includesStr (c # cs) needle = (prefix needle (c # cs) \<or> includesStr cs needle)"

section \<open>fuzzyMatchScore\<close>

text \<open>
  The array \<open>costs\<close> of the edit-distance loop. An assignment \<open>costs[j] = v\<close> at
  \<open>j = costs.length\<close> appends; the loop writes the indices of row 0 in increasing order from 0
  and afterwards only indices below the length, so the padding of the last case never happens.
\<close>

definition arraySet :: "nat list \<Rightarrow> nat \<Rightarrow> nat \<Rightarrow> nat list" where
  "arraySet xs j v = (if j < length xs then xs[j := v] else xs @ replicate (j - length xs) 0 @ [v])"

definition innerStep :: "string \<Rightarrow> string \<Rightarrow> nat \<Rightarrow> nat \<Rightarrow> nat list \<times> nat \<Rightarrow> nat list \<times> nat" where
  \<comment> \<open>The body of the loop over \<open>j\<close>; the state is \<open>(costs, lastValue)\<close>.\<close>
  "innerStep s1 s2 i j st =
     (case st of (costs, lastValue) \<Rightarrow>
        if i = 0 then (arraySet costs j j, lastValue)
        else if j > 0 then
          (let newValue = costs ! (j - 1);
               newValue = (if s1 ! (i - 1) \<noteq> s2 ! (j - 1)
                           then min (min newValue lastValue) (costs ! j) + 1 else newValue)
           in (arraySet costs (j - 1) lastValue, newValue))
        else (costs, lastValue))"

definition outerStep :: "string \<Rightarrow> string \<Rightarrow> nat \<Rightarrow> nat list \<Rightarrow> nat list" where
  \<comment> \<open>The body of the loop over \<open>i\<close>.\<close>
  "outerStep s1 s2 i costs =
     (case fold (innerStep s1 s2 i) [0..<Suc (length s2)] (costs, i) of (costs', lastValue) \<Rightarrow>
        if i > 0 then arraySet costs' (length s2) lastValue else costs')"

definition editCosts :: "string \<Rightarrow> string \<Rightarrow> nat list" where
  "editCosts s1 s2 = fold (outerStep s1 s2) [0..<Suc (length s1)] []"

definition fuzzyMatchScore :: "string \<Rightarrow> string \<Rightarrow> rat" where
  "fuzzyMatchScore str1 str2 =
     (if str1 = [] \<or> str2 = [] then 0
      else
        let s1 = trim (toLowerCase str1);
            s2 = trim (toLowerCase str2)
        in if s1 = s2 then 1
           else
             let longer = (if length s1 > length s2 then s1 else s2);
                 shorter = (if length s1 > length s2 then s2 else s1)
             in if length longer = 0 then 1
                else if includesStr longer shorter
                then of_nat (length shorter) / of_nat (length longer)
                else (of_nat (length longer) - of_nat (editCosts s1 s2 ! length s2))
                       / of_nat (length longer))"

text \<open>
  The classic edit distance, as the matrix of Wagner and Fischer: \<open>levenshtein a b i j\<close> is the
  least number of single-character insertions, deletions and substitutions that turn the
  first \<open>i\<close> characters of \<open>a\<close> into the first \<open>j\<close> characters of \<open>b\<close>.
\<close>

fun levenshtein :: "string \<Rightarrow> string \<Rightarrow> nat \<Rightarrow> nat \<Rightarrow> nat" where
  "levenshtein a b 0 j = j"
| "levenshtein a b (Suc i) 0 = Suc i"
| "levenshtein a b (Suc i) (Suc j) =
     min (min (levenshtein a b i (Suc j) + 1) (levenshtein a b (Suc i) j + 1))
         (levenshtein a b i j + (if a ! i = b ! j then 0 else 1))"

definition editDistance :: "string \<Rightarrow> string \<Rightarrow> nat" where
  "editDistance a b = levenshtein a b (length a) (length b)"

text \<open>
  The value of \<open>fuzzyMatchScore\<close> on two lowercased, trimmed strings, written with the edit
  distance in place of the loop.
\<close>

definition scoreOf :: "string \<Rightarrow> string \<Rightarrow> rat" where
  "scoreOf s1 s2 =
     (if s1 = s2 then 1
      else if includesStr s1 s2 \<or> includesStr s2 s1
      then of_nat (min (length s1) (length s2)) / of_nat (max (length s1) (length s2))
      else 1 - of_nat (editDistance s1 s2) / of_nat (max (length s1) (length s2)))"

section \<open>normalizeAddress\<close>

definition stripPunct :: "string \<Rightarrow> string" where
  \<comment> \<open>\<open>.replace(/[.,#]/g, '')\<close>\<close>
  "stripPunct s = filter (\<lambda>c. c \<notin> {CHR ''.'', CHR '','', CHR ''#''}) s"

function collapseSpaces :: "string \<Rightarrow> string" where
  \<comment> \<open>\<open>.replace(/\s+/g, ' ')\<close>: every maximal run of white space becomes one space.\<close>
  "collapseSpaces [] = []"
| "collapseSpaces (c # cs) =
     (if isWhiteSpace c then CHR '' '' # collapseSpaces (dropWhile isWhiteSpace cs)
      else c # collapseSpaces cs)"
  by pat_completeness auto
termination
  by (relation "measure length") (auto simp: le_imp_less_Suc length_dropWhile_le)

definition atWordBoundary :: "bool \<Rightarrow> string \<Rightarrow> bool" where
  \<comment> \<open>The assertion \<open>\b\<close> between a previous character (a word character or not; none at
      the start) and the rest of the input.\<close>
  "atWordBoundary prevWord rest = (prevWord \<noteq> (rest \<noteq> [] \<and> isWordChar (hd rest)))"

text \<open>
  \<open>.replace(/\bw\b/g, r)\<close> for a non-empty literal \<open>w\<close>: the input is scanned from the left;
  where \<open>w\<close> matches between two word boundaries it is replaced and the scan goes on behind the
  match, elsewhere the character is copied. \<open>prevWord\<close> tells whether the character before the
  position is a word character.
\<close>

function replaceWord :: "string \<Rightarrow> string \<Rightarrow> bool \<Rightarrow> string \<Rightarrow> string" where
  "replaceWord w r prevWord [] = []"
| "replaceWord w r prevWord (c # cs) =
     (if w \<noteq> [] \<and> atWordBoundary prevWord (c # cs) \<and> prefix w (c # cs)
         \<and> atWordBoundary (isWordChar (last w)) (drop (length w) (c # cs))
      then r @ replaceWord w r (isWordChar (last w)) (drop (length w) (c # cs))
      else c # replaceWord w r (isWordChar c) cs)"
  by pat_completeness auto
termination
  by (relation "measure (\<lambda>(w, r, p, s). length s)") auto

definition abbreviations :: "(string \<times> string) list" where
  \<comment> \<open>The replacements of \<open>normalizeAddress\<close>, in the order of the source.\<close>
  "abbreviations =
     [(''avenue'', ''ave''), (''street'', ''st''), (''drive'', ''dr''), (''boulevard'', ''blvd''),
      (''road'', ''rd''), (''lane'', ''ln''), (''court'', ''ct''), (''north'', ''n''),
      (''south'', ''s''), (''east'', ''e''), (''west'', ''w''), (''northeast'', ''ne''),
      (''northwest'', ''nw''), (''southeast'', ''se''), (''southwest'', ''sw'')]"

definition normalizeAddress :: "string \<Rightarrow> string" where
  \<comment> \<open>The argument is the string \<open>addr || ''\<close>.\<close>
  "normalizeAddress addr =
     fold (\<lambda>(w, r) s. replaceWord w r False s) abbreviations
       (collapseSpaces (stripPunct (trim (toLowerCase addr))))"

text \<open>
  Auxiliary notions for the proofs about \<open>normalizeAddress\<close>: \<open>wordMap f\<close> applies \<open>f\<close> to every
  maximal run of word characters, \<open>abbreviate\<close> is what the replacements do to one such run,
  and \<open>wsNormal\<close> holds of the strings whose only white space is single spaces.
\<close>

function wordMap :: "(string \<Rightarrow> string) \<Rightarrow> string \<Rightarrow> string" where
  "wordMap f [] = []"
| "wordMap f (c # cs) =
     (if isWordChar c then f (c # takeWhile isWordChar cs) @ wordMap f (dropWhile isWordChar cs)
      else c # wordMap f cs)"
  by pat_completeness auto
termination
  by (relation "measure (\<lambda>(f, s). length s)") (auto simp: le_imp_less_Suc length_dropWhile_le)

definition abbreviate :: "string \<Rightarrow> string" where
  "abbreviate u = fold (\<lambda>(w, r) u. if u = w then r else u) abbreviations u"

fun wsNormal :: "string \<Rightarrow> bool" where
  "wsNormal [] = True"
| "wsNormal (c # cs) =
     ((if isWhiteSpace c then c = CHR '' '' \<and> (cs = [] \<or> \<not> isWhiteSpace (hd cs)) else True)
      \<and> wsNormal cs)"

section \<open>JSON.parse\<close>

text \<open>
  \<open>JSON.parse\<close> of the runtime, after ECMA-404: a lexer and a parser that keeps the open arrays
  and objects on a stack. A number carries the exact value of its literal. An escape \<open>\uXXXX\<close>
  above 255 denotes a code unit outside the strings of this development and is rejected here.
\<close>

datatype json =
    JNull
  | JBool bool
  | JNumber rat
  | JString string
  | JArray "json list"
  | JObject "(string \<times> json) list"

datatype token =
    TLBrace | TRBrace | TLBracket | TRBracket | TColon | TComma
  | TString string | TNumber rat | TTrue | TFalse | TNull

definition isJsonWs :: "char \<Rightarrow> bool" where
  "isJsonWs c = (codeUnit c \<in> {9, 10, 13, 32})"

definition isNumberChar :: "char \<Rightarrow> bool" where
  "isNumberChar c = (isDigit c \<or> c \<in> {CHR ''+'', CHR ''-'', CHR ''.'', CHR ''e'', CHR ''E''})"

definition isLetter :: "char \<Rightarrow> bool" where
  "isLetter c = ((65 \<le> codeUnit c \<and> codeUnit c \<le> 90) \<or> (97 \<le> codeUnit c \<and> codeUnit c \<le> 122))"

definition digitsValue :: "string \<Rightarrow> nat" where
  "digitsValue ds = foldl (\<lambda>n c. 10 * n + (codeUnit c - 48)) 0 ds"

definition hexDigitValue :: "char \<Rightarrow> nat option" where
  "hexDigitValue c =
     (if isDigit c then Some (codeUnit c - 48)
      else if 97 \<le> codeUnit c \<and> codeUnit c \<le> 102 then Some (codeUnit c - 87)
      else if 65 \<le> codeUnit c \<and> codeUnit c \<le> 70 then Some (codeUnit c - 55)
      else None)"

fun hexValue :: "string \<Rightarrow> nat \<Rightarrow> nat option" where
  "hexValue [] n = Some n"
| "hexValue (c # cs) n = (case hexDigitValue c of None \<Rightarrow> None | Some d \<Rightarrow> hexValue cs (16 * n + d))"

definition escapeChar :: "char \<Rightarrow> char option" where
  "escapeChar e =
     (if e = CHR 0x22 then Some (CHR 0x22)
      else if e = CHR 0x5C then Some (CHR 0x5C)
      else if e = CHR ''/'' then Some (CHR ''/'')
      else if e = CHR ''b'' then Some (CHR 0x08)
      else if e = CHR ''f'' then Some (CHR 0x0C)
      else if e = CHR ''n'' then Some (CHR 0x0A)
      else if e = CHR ''r'' then Some (CHR 0x0D)
      else if e = CHR ''t'' then Some (CHR 0x09)
      else None)"

function lexString :: "string \<Rightarrow> string \<Rightarrow> (string \<times> string) option" where
  "lexString [] acc = None"
| "lexString (c # cs) acc =
     (if c = CHR 0x22 then Some (rev acc, cs)
      else if c = CHR 0x5C then
        (case cs of
           [] \<Rightarrow> None
         | e # es \<Rightarrow>
             if e = CHR ''u'' then
               (if length es < 4 then None
                else case hexValue (take 4 es) 0 of
                       None \<Rightarrow> None
                     | Some n \<Rightarrow> if n < 256 then lexString (drop 4 es) (char_of n # acc) else None)
             else (case escapeChar e of None \<Rightarrow> None | Some x \<Rightarrow> lexString es (x # acc)))
      else if codeUnit c < 32 then None
      else lexString cs (c # acc))"
  by pat_completeness auto
termination
  by (relation "measure (\<lambda>(s, acc). length s)") auto

definition parseNumber :: "string \<Rightarrow> rat option" where
  "parseNumber s =
     (let neg = (s \<noteq> [] \<and> hd s = CHR ''-'');
          s1 = (if neg then tl s else s);
          ip = takeWhile isDigit s1;
          s2 = dropWhile isDigit s1;
          hasFrac = (s2 \<noteq> [] \<and> hd s2 = CHR ''.'');
          fp = (if hasFrac then takeWhile isDigit (tl s2) else []);
          s3 = (if hasFrac then dropWhile isDigit (tl s2) else s2);
          hasExp = (s3 \<noteq> [] \<and> hd s3 \<in> {CHR ''e'', CHR ''E''});
          s4 = (if hasExp then tl s3 else s3);
          eneg = (hasExp \<and> s4 \<noteq> [] \<and> hd s4 = CHR ''-'');
          s5 = (if hasExp \<and> s4 \<noteq> [] \<and> hd s4 \<in> {CHR ''+'', CHR ''-''} then tl s4 else s4);
          mant = (of_nat (digitsValue ip) + of_nat (digitsValue fp) / 10 ^ length fp :: rat);
          scaled = (if eneg then mant / 10 ^ digitsValue s5 else mant * 10 ^ digitsValue s5)
      in if ip = [] \<or> (length ip > 1 \<and> hd ip = CHR ''0'') then None
         else if hasFrac \<and> fp = [] then None
         else if hasExp \<and> (s5 = [] \<or> \<not> list_all isDigit s5) then None
         else if \<not> hasExp \<and> s3 \<noteq> [] then None
         else Some (if neg then - scaled else scaled))"

lemma lexString_shorter: "lexString s acc = Some (str, rest) \<Longrightarrow> length rest < length s"
proof (induction "length s" arbitrary: s acc rule: less_induct)
  case less
  from less.prems obtain c cs where s: "s = c # cs" by (cases s) auto
  have IH: "\<And>t acc'. length t < length s \<Longrightarrow> lexString t acc' = Some (str, rest) \<Longrightarrow> length rest < length t"
    using less.hyps by blast
  show ?case
  proof (cases "c = CHR 0x22")
    case True
    with less.prems s show ?thesis by simp
  next
    case nq: False
    show ?thesis
    proof (cases "c = CHR 0x5C")
      case False
      with nq less.prems s have "lexString cs (c # acc) = Some (str, rest)"
        by (simp split: if_splits)
      then have "length rest < length cs" using IH[of cs "c # acc"] s by simp
      then show ?thesis using s by simp
    next
      case bs: True
      with less.prems s obtain e es where cs: "cs = e # es" by (cases cs) auto
      show ?thesis
      proof (cases "e = CHR ''u''")
        case True
        with bs less.prems s cs obtain n :: nat where "lexString (drop 4 es) (char_of n # acc) = Some (str, rest)"
          by (auto split: if_splits option.splits)
        then have "length rest < length (drop 4 es)" using IH[of "drop 4 es" "char_of n # acc"] s cs by simp
        then show ?thesis using s cs by simp
      next
        case False
        with bs less.prems s cs obtain x where "lexString es (x # acc) = Some (str, rest)"
          by (auto split: option.splits)
        then have "length rest < length es" using IH[of es "x # acc"] s cs by simp
        then show ?thesis using s cs by simp
      qed
    qed
  qed
qed

function tokenize :: "string \<Rightarrow> token list option" where
  "tokenize [] = Some []"
| "tokenize (c # cs) =
     (if isJsonWs c then tokenize cs
      else if c = CHR ''{'' then map_option (Cons TLBrace) (tokenize cs)
      else if c = CHR ''}'' then map_option (Cons TRBrace) (tokenize cs)
      else if c = CHR ''['' then map_option (Cons TLBracket) (tokenize cs)
      else if c = CHR '']'' then map_option (Cons TRBracket) (tokenize cs)
      else if c = CHR '':'' then map_option (Cons TColon) (tokenize cs)
      else if c = CHR '','' then map_option (Cons TComma) (tokenize cs)
      else if c = CHR 0x22 then
        (case lexString cs [] of
           None \<Rightarrow> None
         | Some (str, rest) \<Rightarrow> map_option (Cons (TString str)) (tokenize rest))
      else if c = CHR ''-'' \<or> isDigit c then
        (case parseNumber (c # takeWhile isNumberChar cs) of
           None \<Rightarrow> None
         | Some v \<Rightarrow> map_option (Cons (TNumber v)) (tokenize (dropWhile isNumberChar cs)))
      else if isLetter c then
        (let word = c # takeWhile isLetter cs in
         if word = ''true'' then map_option (Cons TTrue) (tokenize (dropWhile isLetter cs))
         else if word = ''false'' then map_option (Cons TFalse) (tokenize (dropWhile isLetter cs))
         else if word = ''null'' then map_option (Cons TNull) (tokenize (dropWhile isLetter cs))
         else None)
      else None)"
  by pat_completeness auto
termination
  by (relation "measure length")
     (auto simp: le_imp_less_Suc length_dropWhile_le dest: lexString_shorter)

datatype frame = ArrayFrame "json list" | ObjectFrame "(string \<times> json) list" string

fun parseValue :: "frame list \<Rightarrow> token list \<Rightarrow> json option"
  and afterValue :: "json \<Rightarrow> frame list \<Rightarrow> token list \<Rightarrow> json option"
  and parseMember :: "(string \<times> json) list \<Rightarrow> frame list \<Rightarrow> token list \<Rightarrow> json option" where
  "parseValue stk [] = None"
| "parseValue stk (t # ts) =
     (case t of
        TNull \<Rightarrow> afterValue JNull stk ts
      | TTrue \<Rightarrow> afterValue (JBool True) stk ts
      | TFalse \<Rightarrow> afterValue (JBool False) stk ts
      | TNumber v \<Rightarrow> afterValue (JNumber v) stk ts
      | TString s \<Rightarrow> afterValue (JString s) stk ts
      | TLBracket \<Rightarrow>
          (case ts of
             TRBracket # ts' \<Rightarrow> afterValue (JArray []) stk ts'
           | _ \<Rightarrow> parseValue (ArrayFrame [] # stk) ts)
      | TLBrace \<Rightarrow>
          (case ts of
             TRBrace # ts' \<Rightarrow> afterValue (JObject []) stk ts'
           | _ \<Rightarrow> parseMember [] stk ts)
      | _ \<Rightarrow> None)"
| "afterValue v [] ts = (if ts = [] then Some v else None)"
| "afterValue v (ArrayFrame items # stk) ts =
     (case ts of
        TComma # ts' \<Rightarrow> parseValue (ArrayFrame (v # items) # stk) ts'
      | TRBracket # ts' \<Rightarrow> afterValue (JArray (rev (v # items))) stk ts'
      | _ \<Rightarrow> None)"
| "afterValue v (ObjectFrame members key # stk) ts =
     (case ts of
        TComma # ts' \<Rightarrow> parseMember ((key, v) # members) stk ts'
      | TRBrace # ts' \<Rightarrow> afterValue (JObject (rev ((key, v) # members))) stk ts'
      | _ \<Rightarrow> None)"
| "parseMember members stk ts =
     (case ts of
        TString key # TColon # ts' \<Rightarrow> parseValue (ObjectFrame members key # stk) ts'
      | _ \<Rightarrow> None)"

definition jsonParse :: "string \<Rightarrow> json option" where
  "jsonParse text = (case tokenize text of None \<Rightarrow> None | Some ts \<Rightarrow> parseValue [] ts)"

section \<open>JavaScript values\<close>

definition roundsToZero :: "rat \<Rightarrow> bool" where
  \<comment> \<open>The decimal value \<open>v\<close> denotes the double 0: it is at most half the least positive double.\<close>
  "roundsToZero v = (\<bar>v\<bar> \<le> 1 / 2 ^ 1075)"

fun truthy :: "json \<Rightarrow> bool" where
  "truthy JNull = False"
| "truthy (JBool b) = b"
| "truthy (JNumber v) = (\<not> roundsToZero v)"
| "truthy (JString s) = (s \<noteq> [])"
| "truthy (JArray xs) = True"
| "truthy (JObject kvs) = True"

fun getProperty :: "json \<Rightarrow> string \<Rightarrow> json" where
  \<comment> \<open>\<open>v[key]\<close> for a key that no prototype defines; \<open>undefined\<close> is rendered as \<open>JNull\<close>. Of two
      members with the same key \<open>JSON.parse\<close> keeps the last.\<close>
  "getProperty (JObject kvs) key = (case map_of (rev kvs) key of None \<Rightarrow> JNull | Some v \<Rightarrow> v)"
| "getProperty v key = JNull"

section \<open>parsePythonDict\<close>

function replaceAll :: "string \<Rightarrow> string \<Rightarrow> string \<Rightarrow> string" where
  \<comment> \<open>\<open>s.replace(/pat/g, rep)\<close> for a non-empty literal \<open>pat\<close>\<close>
  "replaceAll pat rep [] = []"
| "replaceAll pat rep (c # cs) =
     (if pat \<noteq> [] \<and> prefix pat (c # cs) then rep @ replaceAll pat rep (drop (length pat) (c # cs))
      else c # replaceAll pat rep cs)"
  by pat_completeness auto
termination
  by (relation "measure (\<lambda>(pat, rep, s). length s)") auto

definition pythonToJson :: "string \<Rightarrow> string" where
  "pythonToJson dictStr =
     replaceAll ''False'' ''false''
       (replaceAll ''True'' ''true''
          (replaceAll ''None'' ''null''
             (replaceAll [CHR 0x27] [CHR 0x22] dictStr)))"

definition parsePythonDict :: "json \<Rightarrow> json" where
  \<comment> \<open>The result \<open>null\<close> is \<open>JNull\<close>.\<close>
  "parsePythonDict dictStr =
     (case dictStr of
        JString s \<Rightarrow>
          if s = [] then JNull
          else (case jsonParse s of
                  Some v \<Rightarrow> v
                | None \<Rightarrow> (case jsonParse (pythonToJson s) of Some v \<Rightarrow> v | None \<Rightarrow> JNull))
      | _ \<Rightarrow> JNull)"

section \<open>getSalesforceMetadataByAddress (database-query)\<close>

record sfRecord =
  Name :: string
  Year_Built__c :: json
  Net_RSF__c :: json
  ShippingAddress :: json

record params =
  street :: string
  city :: string
  state :: string
  postalCode :: string
  storeName :: "string option"

record scoredMatch = sfRecord +
  nameScore :: rat
  addressScore :: rat
  combinedScore :: rat
  parsedStoreName :: string
  parsedAddress :: string

datatype error = TypeError

function splitFrom :: "string \<Rightarrow> string \<Rightarrow> string \<Rightarrow> string list" where
  \<comment> \<open>\<open>acc\<close> is the current piece, reversed\<close>
  "splitFrom sep acc [] = [rev acc]"
| "splitFrom sep acc (c # cs) =
     (if sep \<noteq> [] \<and> prefix sep (c # cs) then rev acc # splitFrom sep [] (drop (length sep) (c # cs))
      else splitFrom sep (c # acc) cs)"
  by pat_completeness auto
termination
  by (relation "measure (\<lambda>(sep, acc, s). length s)") auto

definition split :: "string \<Rightarrow> string \<Rightarrow> string list" where
  \<comment> \<open>\<open>s.split(sep)\<close> for a non-empty separator\<close>
  "split s sep = splitFrom sep [] s"

definition hasDigits :: "string \<Rightarrow> bool" where
  \<comment> \<open>\<open>/\d+/.test(s)\<close>\<close>
  "hasDigits s = list_ex isDigit s"

definition streetWords :: "string list" where
  "streetWords = [''st'', ''ave'', ''rd'', ''blvd'', ''dr'', ''way'', ''lane'', ''court'']"

definition hasStreetWord :: "string \<Rightarrow> bool" where
  \<comment> \<open>\<open>/(st|ave|rd|blvd|dr|way|lane|court)/i.test(s)\<close>: one of the alternatives occurs in \<open>s\<close>,
      letters compared without case.\<close>
  "hasStreetWord s = list_ex (includesStr (toLowerCase s)) streetWords"

definition sfStoreBrandOf :: "string \<Rightarrow> string" where
  "sfStoreBrandOf sfName =
     (if includesStr sfName '' - '' then trim (hd (split sfName '' - '')) else sfName)"

definition sfStreetOf :: "sfRecord \<Rightarrow> json" where
  \<comment> \<open>The value of the variable \<open>sfStreet\<close> when the loop body reaches \<open>if (!sfStreet) continue\<close>.\<close>
  "sfStreetOf record =
     (let sfName = Name record;
          shippingAddress = parsePythonDict (ShippingAddress record)
      in if truthy shippingAddress \<and> truthy (getProperty shippingAddress ''street'')
         then getProperty shippingAddress ''street''
         else if includesStr sfName '' - '' then
           (let nameParts = split sfName '' - '' in
            if length nameParts \<ge> 2 then
              (let potentialAddress = trim (nameParts ! 1) in
               if hasDigits potentialAddress \<or> hasStreetWord potentialAddress
               then JString potentialAddress else JString [])
            else JString [])
         else JString [])"

definition scoreRecord :: "string \<Rightarrow> string \<Rightarrow> sfRecord \<Rightarrow> error + scoredMatch option" where
  \<comment> \<open>One iteration of the loop over the records: \<open>Inr None\<close> when nothing is pushed, \<open>Inl\<close> when
      \<open>normalizeAddress\<close> is handed a street that has no \<open>toLowerCase\<close>.\<close>
  "scoreRecord targetStreet targetStoreName record =
     (let sfName = Name record;
          sfStoreBrand = sfStoreBrandOf sfName;
          sfStreet = sfStreetOf record
      in if \<not> truthy sfStreet then Inr None
         else (case sfStreet of
                 JString streetText \<Rightarrow>
                   (let nameScoreFull = fuzzyMatchScore targetStoreName (toLowerCase sfName);
                        nameScoreBrand = fuzzyMatchScore targetStoreName (toLowerCase sfStoreBrand);
                        nameScore = max nameScoreFull nameScoreBrand;
                        normalizedSfStreet = normalizeAddress streetText;
                        addressScore = fuzzyMatchScore targetStreet normalizedSfStreet;
                        combinedScore = (nameScore * (4 / 10)) + (addressScore * (6 / 10))
                    in if combinedScore > 3 / 10 \<or> addressScore > 5 / 10
                       then Inr (Some \<lparr>Name = sfName,
                                    Year_Built__c = Year_Built__c record,
                                    Net_RSF__c = Net_RSF__c record,
                                    ShippingAddress = ShippingAddress record,
                                    nameScore = nameScore,
                                    addressScore = addressScore,
                                    combinedScore = combinedScore,
                                    parsedStoreName = sfStoreBrand,
                                    parsedAddress = streetText\<rparr>)
                       else Inr None)
               | _ \<Rightarrow> Inl TypeError))"

fun matchLoop :: "string \<Rightarrow> string \<Rightarrow> sfRecord list \<Rightarrow> scoredMatch list \<Rightarrow> error + scoredMatch list" where
  "matchLoop targetStreet targetStoreName [] scoredMatches = Inr scoredMatches"
| "matchLoop targetStreet targetStoreName (record # results) scoredMatches =
     (case scoreRecord targetStreet targetStoreName record of
        Inl e \<Rightarrow> Inl e
      | Inr None \<Rightarrow> matchLoop targetStreet targetStoreName results scoredMatches
      | Inr (Some m) \<Rightarrow> matchLoop targetStreet targetStoreName results (scoredMatches @ [m]))"

definition sortByScore :: "scoredMatch list \<Rightarrow> scoredMatch list" where
  \<comment> \<open>\<open>sort((a, b) => b.combinedScore - a.combinedScore)\<close>; the sort of the engine is stable,
      as insertion by key is.\<close>
  "sortByScore ms = sort_key (\<lambda>m. - combinedScore m) ms"

definition getSalesforceMetadataByAddress :: "params \<Rightarrow> sfRecord list \<Rightarrow> error + scoredMatch list" where
  \<comment> \<open>\<open>results\<close> is what the query returned.\<close>
  "getSalesforceMetadataByAddress ps results =
     (if results = [] then Inr []
      else
        let targetStreet = normalizeAddress (street ps);
            targetStoreName = trim (toLowerCase (case storeName ps of None \<Rightarrow> [] | Some n \<Rightarrow> n))
        in case matchLoop targetStreet targetStoreName results [] of
             Inl e \<Rightarrow> Inl e
           | Inr scoredMatches \<Rightarrow> Inr (take 10 (sortByScore scoredMatches)))"

section \<open>getSalesforceMetadataByAddress (api.ts)\<close>

datatype jsNumber = NaN | Finite rat | PosInfinity | NegInfinity

text \<open>
  \<open>String(v)\<close>. The digits that the runtime prints for a number are a parameter
  (\<open>numberToString\<close>); an array prints its elements separated by commas, \<open>null\<close> as nothing.
\<close>

fun intercalate :: "string \<Rightarrow> string list \<Rightarrow> string" where
  "intercalate sep [] = []"
| "intercalate sep [x] = x"
| "intercalate sep (x # y # ys) = x @ sep @ intercalate sep (y # ys)"

fun toStringJS :: "(rat \<Rightarrow> string) \<Rightarrow> json \<Rightarrow> string" where
  "toStringJS numberToString JNull = ''null''"
| "toStringJS numberToString (JBool b) = (if b then ''true'' else ''false'')"
| "toStringJS numberToString (JNumber v) = numberToString v"
| "toStringJS numberToString (JString s) = s"
| "toStringJS numberToString (JArray xs) =
     intercalate '','' (map (\<lambda>x. if x = JNull then [] else toStringJS numberToString x) xs)"
| "toStringJS numberToString (JObject kvs) = ''[object Object]''"

definition parseInt10 :: "string \<Rightarrow> int option" where
  \<comment> \<open>\<open>parseInt(s, 10)\<close>; \<open>None\<close> is \<open>NaN\<close>. The integer is exact.\<close>
  "parseInt10 inputString =
     (let s = trimStart inputString;
          neg = (s \<noteq> [] \<and> hd s = CHR ''-'');
          s1 = (if s \<noteq> [] \<and> hd s \<in> {CHR ''+'', CHR ''-''} then tl s else s);
          z = takeWhile isDigit s1
      in if z = [] then None
         else Some (if neg then - int (digitsValue z) else int (digitsValue z)))"

definition parseFloat :: "string \<Rightarrow> jsNumber" where
  \<comment> \<open>\<open>parseFloat(s)\<close>: the longest prefix that is a decimal literal. A finite result stands for
      the double nearest to it.\<close>
  "parseFloat inputString =
     (let s = trimStart inputString;
          neg = (s \<noteq> [] \<and> hd s = CHR ''-'');
          s1 = (if s \<noteq> [] \<and> hd s \<in> {CHR ''+'', CHR ''-''} then tl s else s);
          ip = takeWhile isDigit s1;
          s2 = dropWhile isDigit s1;
          hasDot = (s2 \<noteq> [] \<and> hd s2 = CHR ''.'');
          fp = (if hasDot then takeWhile isDigit (tl s2) else []);
          s3 = (if hasDot then dropWhile isDigit (tl s2) else s2);
          s4 = (if s3 \<noteq> [] \<and> hd s3 \<in> {CHR ''e'', CHR ''E''} then tl s3 else []);
          eneg = (s4 \<noteq> [] \<and> hd s4 = CHR ''-'');
          s5 = (if s4 \<noteq> [] \<and> hd s4 \<in> {CHR ''+'', CHR ''-''} then tl s4 else s4);
          ed = takeWhile isDigit s5;
          mant = (of_nat (digitsValue ip) + of_nat (digitsValue fp) / 10 ^ length fp :: rat);
          scaled = (if eneg then mant / 10 ^ digitsValue ed else mant * 10 ^ digitsValue ed)
      in if prefix ''Infinity'' s1 then (if neg then NegInfinity else PosInfinity)
         else if ip = [] \<and> fp = [] then NaN
         else Finite (if neg then - scaled else scaled))"

fun greaterThanZero :: "jsNumber \<Rightarrow> bool" where
  \<comment> \<open>\<open>parsed > 0\<close>, on the double that the value stands for\<close>
  "greaterThanZero NaN = False"
| "greaterThanZero (Finite v) = (0 < v \<and> \<not> roundsToZero v)"
| "greaterThanZero PosInfinity = True"
| "greaterThanZero NegInfinity = False"

record metadata =
  yearBuilt :: "int option"
  squareFootage :: "jsNumber option"
  matched :: bool
  matchScore :: rat

definition yearBuiltOf :: "(rat \<Rightarrow> string) \<Rightarrow> json \<Rightarrow> int option" where
  "yearBuiltOf numberToString raw =
     (if truthy raw then
        (case parseInt10 (toStringJS numberToString raw) of
           None \<Rightarrow> None
         | Some parsed \<Rightarrow> if parsed \<ge> 1900 \<and> parsed \<le> 2030 then Some parsed else None)
      else None)"

definition squareFootageOf :: "(rat \<Rightarrow> string) \<Rightarrow> json \<Rightarrow> jsNumber option" where
  "squareFootageOf numberToString raw =
     (if truthy raw then
        (let parsed = parseFloat (toStringJS numberToString raw)
         in if parsed \<noteq> NaN \<and> greaterThanZero parsed then Some parsed else None)
      else None)"

definition apiGetSalesforceMetadataByAddress :: "(rat \<Rightarrow> string) \<Rightarrow> scoredMatch list \<Rightarrow> metadata option" where
  \<comment> \<open>What \<open>getSalesforceMetadataByAddress\<close> of api.ts makes of the array \<open>results\<close> that the
      database-query function returned; \<open>None\<close> is \<open>null\<close>.\<close>
  "apiGetSalesforceMetadataByAddress numberToString results =
     (case results of
        [] \<Rightarrow> None
      | record # rest \<Rightarrow>
          Some \<lparr>yearBuilt = yearBuiltOf numberToString (Year_Built__c record),
                squareFootage = squareFootageOf numberToString (Net_RSF__c record),
                matched = True,
                matchScore = combinedScore record\<rparr>)"

section \<open>Auxiliary notions and example data\<close>





definition acmeMatch :: scoredMatch where
  "acmeMatch = \<lparr>Name = ''Acme Storage - 456 Oak Ave'', Year_Built__c = JString ''2005'',
                 Net_RSF__c = JNull, ShippingAddress = JNull, nameScore = 1 / 3, addressScore = 1,
                 combinedScore = 11 / 15, parsedStoreName = ''Acme Storage'',
                 parsedAddress = ''456 Oak Ave''\<rparr>"


section \<open>Properties of the edit-distance loop\<close>

lemma lev_0 [simp]: "levenshtein a b i 0 = i"
  by (cases i) auto

lemma lev_ge_diff: "j \<le> levenshtein a b i j + i \<and> i \<le> levenshtein a b i j + j"
  by (induction a b i j rule: levenshtein.induct) (auto simp: min_def)

lemma lev_up_i: "levenshtein a b (Suc i) j \<le> levenshtein a b i j + 1"
  by (cases j) auto

lemma lev_up_j: "levenshtein a b i (Suc j) \<le> levenshtein a b i j + 1"
  by (cases i) auto

lemma lev_down: "levenshtein a b i j \<le> levenshtein a b (Suc i) j + 1 \<and> levenshtein a b i j \<le> levenshtein a b i (Suc j) + 1"
proof (induction a b i j rule: levenshtein.induct)
  case (1 a b j)
  then show ?case using lev_ge_diff[of j a b "Suc 0"] by simp
next
  case (2 a b i)
  then show ?case using lev_ge_diff[of "Suc 0" a b i] by (simp add: min_def)
next
  case (3 a b i j)
  have u1: "levenshtein a b (Suc i) (Suc j) \<le> levenshtein a b i (Suc j) + 1" by (rule lev_up_i)
  have u2: "levenshtein a b (Suc i) (Suc j) \<le> levenshtein a b (Suc i) j + 1" by (rule lev_up_j)
  have u3: "levenshtein a b (Suc (Suc i)) j \<le> levenshtein a b (Suc i) j + 1" by (rule lev_up_i)
  have u4: "levenshtein a b i (Suc (Suc j)) \<le> levenshtein a b i (Suc j) + 1" by (rule lev_up_j)
  have A: "levenshtein a b (Suc i) (Suc j) \<le> levenshtein a b (Suc (Suc i)) (Suc j) + 1"
    using 3 u1 u2 u3 by (simp add: min_def)
  have B: "levenshtein a b (Suc i) (Suc j) \<le> levenshtein a b (Suc i) (Suc (Suc j)) + 1"
    using 3 u1 u2 u4 by (simp add: min_def)
  show ?case using A B by blast
qed

lemma lev_code_rec:
  "levenshtein a b (Suc i) (Suc j) =
     (if a ! i = b ! j then levenshtein a b i j
      else min (min (levenshtein a b i j) (levenshtein a b (Suc i) j)) (levenshtein a b i (Suc j)) + 1)"
  using lev_down[of a b i j] by (auto simp: min_def)

lemma lev_sym: "levenshtein a b i j = levenshtein b a j i"
  by (induction a b i j rule: levenshtein.induct) (auto simp: min_def)

lemma lev_le_max: "levenshtein a b i j \<le> max i j"
  by (induction a b i j rule: levenshtein.induct) (auto simp: min_def max_def)

lemma arraySet_in: "j < length xs \<Longrightarrow> arraySet xs j v = xs[j := v]"
  by (simp add: arraySet_def)

lemma arraySet_end: "arraySet xs (length xs) v = xs @ [v]"
  by (simp add: arraySet_def)

lemma row0: "fold (innerStep s1 s2 0) [0..<k] ([], l) = ([0..<k], l)"
proof (induction k)
  case 0
  show ?case by simp
next
  case (Suc k)
  have "arraySet [0..<k] k k = [0..<k] @ [k]"
    using arraySet_end[of "[0..<k]" k] by simp
  with Suc show ?case by (simp add: innerStep_def)
qed

lemma rowSuc:
  assumes "j \<le> length s2"
  shows "fold (innerStep s1 s2 (Suc i)) [0..<Suc j] (map (levenshtein s1 s2 i) [0..<Suc (length s2)], Suc i)
         = (map (levenshtein s1 s2 (Suc i)) [0..<j] @ map (levenshtein s1 s2 i) [j..<Suc (length s2)],
            levenshtein s1 s2 (Suc i) j)"
  using assms
proof (induction j)
  case 0
  show ?case by (simp add: innerStep_def)
next
  case (Suc j)
  let ?n = "length s2"
  let ?cur = "map (levenshtein s1 s2 (Suc i)) [0..<j]"
  let ?costs = "?cur @ map (levenshtein s1 s2 i) [j..<Suc ?n]"
  from Suc have j: "j < ?n" by simp
  have ih: "fold (innerStep s1 s2 (Suc i)) [0..<Suc j] (map (levenshtein s1 s2 i) [0..<Suc ?n], Suc i)
            = (?costs, levenshtein s1 s2 (Suc i) j)"
    using Suc by simp
  have r1: "?costs ! j = levenshtein s1 s2 i j"
    using j by (simp add: nth_append del: upt_Suc)
  have r2: "?costs ! Suc j = levenshtein s1 s2 i (Suc j)"
    using j by (simp add: nth_append del: upt_Suc)
  have split: "[j..<Suc ?n] = j # [Suc j..<Suc ?n]"
    using j by (simp add: upt_conv_Cons)
  have w: "arraySet ?costs j (levenshtein s1 s2 (Suc i) j)
           = map (levenshtein s1 s2 (Suc i)) [0..<Suc j] @ map (levenshtein s1 s2 i) [Suc j..<Suc ?n]"
    using j by (simp add: arraySet_def split list_update_append upt_Suc_append[of 0 j] del: upt_Suc)
  have "fold (innerStep s1 s2 (Suc i)) [0..<Suc (Suc j)] (map (levenshtein s1 s2 i) [0..<Suc ?n], Suc i)
        = innerStep s1 s2 (Suc i) (Suc j) (?costs, levenshtein s1 s2 (Suc i) j)"
    using ih by (simp del: upt_Suc add: upt_Suc_append[of 0 "Suc j"])
  also have "\<dots> = (map (levenshtein s1 s2 (Suc i)) [0..<Suc j] @ map (levenshtein s1 s2 i) [Suc j..<Suc ?n],
                   levenshtein s1 s2 (Suc i) (Suc j))"
    unfolding innerStep_def using r1 r2 w lev_code_rec[of s1 s2 i j]
    by (simp add: Let_def del: levenshtein.simps upt_Suc)
  finally show ?case .
qed

lemma map_lev_0: "map (levenshtein s1 s2 0) xs = xs"
  by (induction xs) auto

lemma outerStep_0: "outerStep s1 s2 0 [] = map (levenshtein s1 s2 0) [0..<Suc (length s2)]"
  unfolding outerStep_def using row0[of s1 s2 "Suc (length s2)" 0]
  by (simp del: upt_Suc add: map_lev_0)

lemma outerStep_Suc:
  "outerStep s1 s2 (Suc i) (map (levenshtein s1 s2 i) [0..<Suc (length s2)])
   = map (levenshtein s1 s2 (Suc i)) [0..<Suc (length s2)]"
proof -
  have one: "[length s2..<Suc (length s2)] = [length s2]" by simp
  show ?thesis
    unfolding outerStep_def using rowSuc[of "length s2" s2 s1 i]
    by (simp del: upt_Suc levenshtein.simps add: one arraySet_def list_update_append upt_Suc_append[of 0 "length s2"])
qed

lemma editCosts_rows:
  "fold (outerStep s1 s2) [0..<Suc k] [] = map (levenshtein s1 s2 k) [0..<Suc (length s2)]"
proof (induction k)
  case 0
  have "fold (outerStep s1 s2) [0..<Suc 0] [] = outerStep s1 s2 0 []" by simp
  also have "\<dots> = map (levenshtein s1 s2 0) [0..<Suc (length s2)]" by (rule outerStep_0)
  finally show ?case .
next
  case (Suc k)
  have "fold (outerStep s1 s2) [0..<Suc (Suc k)] []
        = outerStep s1 s2 (Suc k) (fold (outerStep s1 s2) [0..<Suc k] [])"
    by (simp del: upt_Suc add: upt_Suc_append[of 0 "Suc k"])
  then show ?case using Suc outerStep_Suc[of s1 s2 k] by (simp del: upt_Suc)
qed

lemma editCosts_levenshtein: "editCosts s1 s2 ! length s2 = editDistance s1 s2"
proof -
  have "editCosts s1 s2 = map (levenshtein s1 s2 (length s1)) [0..<Suc (length s2)]"
    unfolding editCosts_def by (rule editCosts_rows)
  then show ?thesis
    by (simp add: editDistance_def nth_append del: upt_Suc)
qed

section \<open>Properties of fuzzyMatchScore\<close>

lemma includesStr_length: "includesStr h n \<Longrightarrow> length n \<le> length h"
  by (induction h) (auto dest: prefix_length_le)

lemma includesStr_same_length: "includesStr h n \<Longrightarrow> length n = length h \<Longrightarrow> n = h"
proof (induction h)
  case Nil
  then show ?case by simp
next
  case (Cons c cs)
  from Cons.prems(2) have "\<not> includesStr cs n"
    using includesStr_length[of cs n] by auto
  with Cons.prems have "prefix n (c # cs)" by simp
  then obtain zs where "c # cs = n @ zs" by (auto simp: prefix_def)
  with Cons.prems(2) show ?case
    by (metis append_eq_conv_conj append_Nil2 length_0_conv length_append add_cancel_left_right)
qed

lemma editDistance_sym: "editDistance a b = editDistance b a"
  by (simp add: editDistance_def lev_sym[of a b])

lemma editDistance_le: "editDistance a b \<le> max (length a) (length b)"
  by (simp add: editDistance_def lev_le_max)

lemma fuzzy_scoreOf:
  "fuzzyMatchScore a b = (if a = [] \<or> b = [] then 0 else scoreOf (trim (toLowerCase a)) (trim (toLowerCase b)))"
proof -
  define s1 where "s1 = trim (toLowerCase a)"
  define s2 where "s2 = trim (toLowerCase b)"
  have body: "(if s1 = s2 then 1
           else
             let longer = (if length s1 > length s2 then s1 else s2);
                 shorter = (if length s1 > length s2 then s2 else s1)
             in if length longer = 0 then 1
                else if includesStr longer shorter
                then of_nat (length shorter) / of_nat (length longer)
                else (of_nat (length longer) - of_nat (editCosts s1 s2 ! length s2))
                       / of_nat (length longer)) = scoreOf s1 s2"
  proof (cases "s1 = s2")
    case True
    then show ?thesis by (simp add: scoreOf_def)
  next
    case ne: False
    consider (gt) "length s1 > length s2" | (lt) "length s1 < length s2" | (eq) "length s1 = length s2"
      by linarith
    then show ?thesis
    proof cases
      case gt
      then have n: "\<not> includesStr s2 s1" using includesStr_length[of s2 s1] by auto
      have pos: "s1 \<noteq> []" using gt by auto
      show ?thesis using ne gt n pos
        by (simp add: scoreOf_def Let_def editCosts_levenshtein min_def max_def diff_divide_distrib)
    next
      case lt
      then have n: "\<not> includesStr s1 s2" using includesStr_length[of s1 s2] by auto
      have pos: "s2 \<noteq> []" using lt by auto
      show ?thesis using ne lt n pos
        by (simp add: scoreOf_def Let_def editCosts_levenshtein min_def max_def diff_divide_distrib)
    next
      case eq
      have n1: "\<not> includesStr s1 s2" using includesStr_same_length[of s1 s2] ne eq by auto
      have n2: "\<not> includesStr s2 s1" using includesStr_same_length[of s2 s1] ne eq by auto
      have pos: "s2 \<noteq> []" using ne eq by auto
      show ?thesis using ne eq n1 n2 pos
        by (simp add: scoreOf_def Let_def editCosts_levenshtein diff_divide_distrib)
    qed
  qed
  show ?thesis
    unfolding fuzzyMatchScore_def Let_def s1_def[symmetric] s2_def[symmetric]
    by (simp only: body[unfolded Let_def])
qed

lemma scoreOf_sym: "scoreOf s1 s2 = scoreOf s2 s1"
  by (auto simp: scoreOf_def editDistance_sym[of s1 s2] min.commute max.commute)

lemma scoreOf_range: "0 \<le> scoreOf s1 s2 \<and> scoreOf s1 s2 \<le> 1"
proof (cases "s1 = s2")
  case True
  then show ?thesis by (simp add: scoreOf_def)
next
  case False
  then have pos: "0 < max (length s1) (length s2)" by (cases s1; cases s2) auto
  have d: "editDistance s1 s2 \<le> max (length s1) (length s2)" by (rule editDistance_le)
  have m: "min (length s1) (length s2) \<le> max (length s1) (length s2)" by simp
  have r1: "(of_nat (editDistance s1 s2) :: rat) / of_nat (max (length s1) (length s2)) \<le> 1"
    using pos d by (simp add: divide_le_eq_1 del: of_nat_max)
  have r2: "(of_nat (min (length s1) (length s2)) :: rat) / of_nat (max (length s1) (length s2)) \<le> 1"
    using pos m by (simp add: divide_le_eq_1 del: of_nat_max of_nat_min)
  show ?thesis using False r1 r2 by (simp add: scoreOf_def)
qed

lemma fuzzy_sym: "fuzzyMatchScore a b = fuzzyMatchScore b a"
  using scoreOf_sym[of "trim (toLowerCase a)" "trim (toLowerCase b)"]
  by (auto simp: fuzzy_scoreOf)

lemma fuzzy_range: "0 \<le> fuzzyMatchScore a b \<and> fuzzyMatchScore a b \<le> 1"
  using scoreOf_range[of "trim (toLowerCase a)" "trim (toLowerCase b)"]
  by (simp add: fuzzy_scoreOf)

section \<open>Properties of normalizeAddress\<close>

lemma takeWhile_stop: "X = [] \<or> \<not> P (hd X) \<Longrightarrow> takeWhile P X = []"
  by (cases X) auto

lemma dropWhile_stop: "X = [] \<or> \<not> P (hd X) \<Longrightarrow> dropWhile P X = X"
  by (cases X) auto

lemma dropWhile_hd_stop: "dropWhile P cs = [] \<or> \<not> P (hd (dropWhile P cs))"
  using hd_dropWhile[of P cs] by blast

lemma wordMap_nonword_prefix:
  "\<forall>c\<in>set p. \<not> isWordChar c \<Longrightarrow> wordMap f (p @ s) = p @ wordMap f s"
  by (induction p) auto

lemma wordMap_word:
  assumes "v \<noteq> []" "\<forall>c\<in>set v. isWordChar c" "X = [] \<or> \<not> isWordChar (hd X)"
  shows "wordMap f (v @ X) = f v @ wordMap f X"
proof -
  from assms(1) obtain x xs where v: "v = x # xs" by (cases v) auto
  have t: "takeWhile isWordChar (xs @ X) = xs"
    using assms(2,3) v by (simp add: takeWhile_append2 takeWhile_stop)
  have d: "dropWhile isWordChar (xs @ X) = X"
    using assms(2,3) v by (simp add: dropWhile_append2 dropWhile_stop)
  show ?thesis using assms(2) v t d by simp
qed

lemma wordMap_hd: "X = [] \<or> \<not> isWordChar (hd X) \<Longrightarrow> wordMap f X = [] \<or> \<not> isWordChar (hd (wordMap f X))"
  by (cases X) auto

lemma word_induct [case_names Nil Word NonWord]:
  assumes "P []"
    and "\<And>c cs. isWordChar c \<Longrightarrow> P (dropWhile isWordChar cs) \<Longrightarrow> P (c # cs)"
    and "\<And>c cs. \<not> isWordChar c \<Longrightarrow> P cs \<Longrightarrow> P (c # cs)"
  shows "P s"
proof (induction "length s" arbitrary: s rule: less_induct)
  case less
  show ?case
  proof (cases s)
    case Nil
    then show ?thesis using assms(1) by simp
  next
    case (Cons c cs)
    have "length (dropWhile isWordChar cs) < length s"
      using Cons length_dropWhile_le[of isWordChar cs] by simp
    then have "P (dropWhile isWordChar cs)" by (rule less)
    moreover have "P cs" using less Cons by simp
    ultimately show ?thesis using assms(2,3) Cons by (cases "isWordChar c") auto
  qed
qed

lemma word_split:
  "isWordChar c \<Longrightarrow> c # cs = (c # takeWhile isWordChar cs) @ dropWhile isWordChar cs"
  by simp

lemma word_run: "isWordChar c \<Longrightarrow> \<forall>x\<in>set (c # takeWhile isWordChar cs). isWordChar x"
  by (auto dest: set_takeWhileD)

lemma wordMap_id: "wordMap (\<lambda>u. u) s = s"
  by (induction s rule: word_induct) auto

lemma wordMap_comp:
  assumes pres: "\<And>u. u \<noteq> [] \<Longrightarrow> \<forall>c\<in>set u. isWordChar c \<Longrightarrow> f u \<noteq> [] \<and> (\<forall>c\<in>set (f u). isWordChar c)"
  shows "wordMap g (wordMap f s) = wordMap (\<lambda>u. g (f u)) s"
proof (induction s rule: word_induct)
  case Nil
  show ?case by simp
next
  case (Word c cs)
  let ?u = "c # takeWhile isWordChar cs"
  let ?rest = "dropWhile isWordChar cs"
  have fu: "f ?u \<noteq> [] \<and> (\<forall>c\<in>set (f ?u). isWordChar c)"
    using pres[of ?u] word_run[OF Word(1), of cs] by simp
  have hd: "wordMap f ?rest = [] \<or> \<not> isWordChar (hd (wordMap f ?rest))"
    by (rule wordMap_hd) (rule dropWhile_hd_stop)
  have "wordMap g (wordMap f (c # cs)) = wordMap g (f ?u @ wordMap f ?rest)"
    using Word(1) by simp
  also have "\<dots> = g (f ?u) @ wordMap g (wordMap f ?rest)"
    using fu hd by (intro wordMap_word) auto
  also have "\<dots> = g (f ?u) @ wordMap (\<lambda>u. g (f u)) ?rest"
    using Word(2) by simp
  also have "\<dots> = wordMap (\<lambda>u. g (f u)) (c # cs)"
    using Word(1) by simp
  finally show ?case .
next
  case (NonWord c cs)
  then show ?case by simp
qed

lemma wordMap_nonword_suffix:
  assumes "\<forall>c\<in>set v. \<not> isWordChar c"
  shows "wordMap f (s @ v) = wordMap f s @ v"
proof (induction s rule: word_induct)
  case Nil
  show ?case using wordMap_nonword_prefix[OF assms, of f "[]"] by simp
next
  case (Word c cs)
  let ?t = "takeWhile isWordChar cs"
  let ?rest = "dropWhile isWordChar cs"
  have cs: "cs = ?t @ ?rest" by simp
  have X: "?rest @ v = [] \<or> \<not> isWordChar (hd (?rest @ v))"
  proof (cases "?rest = []")
    case True
    have "v = [] \<or> \<not> isWordChar (hd v)" using assms by (cases v) auto
    then show ?thesis by (simp only: True append_Nil)
  next
    case False
    then have "hd (?rest @ v) = hd ?rest" by (rule hd_append2)
    then show ?thesis using dropWhile_hd_stop[of isWordChar cs] False by auto
  qed
  have eq: "(c # cs) @ v = (c # ?t) @ (?rest @ v)" by simp
  have "wordMap f ((c # cs) @ v) = wordMap f ((c # ?t) @ (?rest @ v))"
    by (rule arg_cong[OF eq])
  also have "\<dots> = f (c # ?t) @ wordMap f (?rest @ v)"
    using word_run[OF Word(1), of cs] X by (intro wordMap_word) auto
  also have "\<dots> = f (c # ?t) @ wordMap f ?rest @ v"
    using Word(2) by simp
  also have "\<dots> = wordMap f (c # cs) @ v"
    using Word(1) by simp
  finally show ?case .
next
  case (NonWord c cs)
  then show ?case by simp
qed

lemma wordMap_all:
  assumes "\<forall>c\<in>set s. P c" and "\<And>u. \<forall>c\<in>set u. P c \<Longrightarrow> \<forall>c\<in>set (f u). P c"
  shows "\<forall>c\<in>set (wordMap f s). P c"
  using assms(1)
proof (induction s rule: word_induct)
  case Nil
  show ?case by simp
next
  case (Word c cs)
  have a: "\<forall>x\<in>set (c # takeWhile isWordChar cs). P x"
    using Word(3) by (auto dest: set_takeWhileD)
  have b: "\<forall>x\<in>set (dropWhile isWordChar cs). P x"
    using Word(3) by (auto dest: set_dropWhileD)
  show ?case using Word(1) assms(2)[OF a] Word(2)[OF b] by auto
next
  case (NonWord c cs)
  then show ?case by simp
qed

lemma not_prefix_nonword:
  assumes "w \<noteq> []" "\<forall>x\<in>set w. isWordChar x" "\<not> isWordChar c"
  shows "\<not> prefix w (c # cs)"
  using assms by (cases w) auto

lemma replaceWord_nonword:
  assumes "w \<noteq> []" "\<forall>x\<in>set w. isWordChar x" "\<not> isWordChar c"
  shows "replaceWord w r p (c # cs) = c # replaceWord w r False cs"
  using not_prefix_nonword[OF assms, of cs] assms(3) by simp

lemma replaceWord_stop:
  assumes "w \<noteq> []" "\<forall>x\<in>set w. isWordChar x" "X = [] \<or> \<not> isWordChar (hd X)"
  shows "replaceWord w r p X = replaceWord w r False X"
proof (cases X)
  case Nil
  then show ?thesis by simp
next
  case (Cons c cs)
  with assms(3) have "\<not> isWordChar c" by simp
  then show ?thesis
    using replaceWord_nonword[OF assms(1,2), of c r p cs] replaceWord_nonword[OF assms(1,2), of c r False cs] Cons
    by simp
qed

lemma replaceWord_inside:
  "\<forall>x\<in>set u. isWordChar x \<Longrightarrow> replaceWord w r True (u @ X) = u @ replaceWord w r True X"
  by (induction u) (auto simp: atWordBoundary_def)

lemma no_match_in_other_word:
  assumes w: "w \<noteq> []" "\<forall>x\<in>set w. isWordChar x"
    and u: "\<forall>x\<in>set u. isWordChar x" "u \<noteq> w"
    and X: "X = [] \<or> \<not> isWordChar (hd X)"
    and p: "prefix w (u @ X)"
  shows "\<not> atWordBoundary True (drop (length w) (u @ X))"
proof -
  consider (lt) "length w < length u" | (gt) "length u < length w" | (eq) "length w = length u"
    by linarith
  then show ?thesis
  proof cases
    case lt
    then have d: "drop (length w) (u @ X) = drop (length w) u @ X" by simp
    have ne: "drop (length w) u \<noteq> []" using lt by simp
    have "hd (drop (length w) u) \<in> set u"
      using ne by (metis hd_in_set in_set_dropD)
    then have "isWordChar (hd (drop (length w) u))" using u(1) by blast
    then show ?thesis using d ne by (simp add: atWordBoundary_def)
  next
    case gt
    from p obtain zs where zs: "u @ X = w @ zs" by (auto simp: prefix_def)
    then have "take (length u) w = u"
      using gt by (metis append_eq_conv_conj less_imp_le_nat take_all take_append diff_is_0_eq' take_0 append_Nil2)
    then have wu: "w = u @ drop (length u) w" by (metis append_take_drop_id)
    have dne: "drop (length u) w \<noteq> []" using gt by simp
    from zs wu have "X = drop (length u) w @ zs" by (metis append_assoc same_append_eq)
    then have "X \<noteq> [] \<and> hd X = hd (drop (length u) w)" using dne by simp
    moreover have "hd (drop (length u) w) \<in> set w"
      using dne by (metis hd_in_set in_set_dropD)
    ultimately show ?thesis using X w(2) by auto
  next
    case eq
    from p obtain zs where zs: "u @ X = w @ zs" by (auto simp: prefix_def)
    with eq have "u = w" by simp
    with u(2) show ?thesis by simp
  qed
qed

lemma replaceWord_wordMap:
  assumes w: "w \<noteq> []" "\<forall>x\<in>set w. isWordChar x"
  shows "replaceWord w r False s = wordMap (\<lambda>u. if u = w then r else u) s"
proof (induction s rule: word_induct)
  case Nil
  show ?case by simp
next
  case (Word c cs)
  let ?t = "takeWhile isWordChar cs"
  let ?u = "c # ?t"
  let ?rest = "dropWhile isWordChar cs"
  have split: "c # cs = ?u @ ?rest" by simp
  have run: "\<forall>x\<in>set ?u. isWordChar x" by (rule word_run[OF Word(1)])
  have stop: "?rest = [] \<or> \<not> isWordChar (hd ?rest)" by (rule dropWhile_hd_stop)
  have lastw: "isWordChar (last w)" using w by simp
  have tail: "replaceWord w r True ?rest = wordMap (\<lambda>u. if u = w then r else u) ?rest"
    using replaceWord_stop[OF w stop, of r True] Word(2) by simp
  show ?case
  proof (cases "?u = w")
    case True
    have pre: "prefix w (c # cs)" using True split by (metis prefixI)
    have dr: "drop (length w) (c # cs) = ?rest"
      using True split by (metis append_eq_conv_conj)
    have b1: "atWordBoundary False (c # cs)" using Word(1) by (simp add: atWordBoundary_def)
    have b2: "atWordBoundary True ?rest" using stop by (auto simp: atWordBoundary_def)
    have "replaceWord w r False (c # cs) = r @ replaceWord w r True ?rest"
      using w(1) pre dr b1 b2 lastw by (simp del: prefix_Cons)
    then show ?thesis using tail True Word(1) by simp
  next
    case False
    have nm: "\<not> (prefix w (c # cs) \<and> atWordBoundary (isWordChar (last w)) (drop (length w) (c # cs)))"
      using no_match_in_other_word[OF w run False stop] lastw split by (metis (full_types))
    have "replaceWord w r False (c # cs) = c # replaceWord w r True cs"
      using nm Word(1) by (auto simp del: prefix_Cons)
    also have "\<dots> = c # replaceWord w r True (?t @ ?rest)" by simp
    also have "\<dots> = c # ?t @ replaceWord w r True ?rest"
      by (subst replaceWord_inside) (auto dest: set_takeWhileD)
    finally show ?thesis using tail False Word(1) by simp
  qed
next
  case (NonWord c cs)
  then show ?case using replaceWord_nonword[OF w, of c r False cs] by simp
qed

lemma word_not_ws: "isWordChar c \<Longrightarrow> \<not> isWhiteSpace c"
  by (auto simp: isWordChar_def isWhiteSpace_def isDigit_def)

lemma space_ws: "isWhiteSpace CHR '' ''"
  by (simp add: isWhiteSpace_def codeUnit_def)

lemma toLowerChar_idem: "toLowerChar (toLowerChar c) = toLowerChar c"
  by (auto simp: toLowerChar_def codeUnit_def)

lemma toLowerChar_space: "toLowerChar CHR '' '' = CHR '' ''"
  by (simp add: toLowerChar_def codeUnit_def)

lemma toLowerChar_punct:
  "toLowerChar c \<in> {CHR ''.'', CHR '','', CHR ''#''} \<longleftrightarrow> c \<in> {CHR ''.'', CHR '','', CHR ''#''}"
proof (cases "(65 \<le> codeUnit c \<and> codeUnit c \<le> 90) \<or> (192 \<le> codeUnit c \<and> codeUnit c \<le> 222 \<and> codeUnit c \<noteq> 215)")
  case True
  then have a: "codeUnit (toLowerChar c) = codeUnit c + 32"
    by (auto simp: toLowerChar_def codeUnit_def)
  have p: "codeUnit d \<in> {46, 44, 35}" if "d \<in> {CHR ''.'', CHR '','', CHR ''#''}" for d
    using that by (auto simp: codeUnit_def)
  have "toLowerChar c \<notin> {CHR ''.'', CHR '','', CHR ''#''}"
    using p[of "toLowerChar c"] a True by auto
  moreover have "c \<notin> {CHR ''.'', CHR '','', CHR ''#''}"
    using p[of c] True by auto
  ultimately show ?thesis by blast
next
  case False
  then have "toLowerChar c = c" unfolding toLowerChar_def by (simp only: if_False)
  then show ?thesis by simp
qed

lemma lower_letters:
  "\<forall>c\<in>set ''abcdefghijklmnopqrstuvwxyz''.
     isWordChar c \<and> toLowerChar c = c \<and> c \<notin> {CHR ''.'', CHR '','', CHR ''#''}"
  by (simp add: isWordChar_def toLowerChar_def codeUnit_def isDigit_def)

subsection \<open>The table\<close>

lemma fold_abbr_cases:
  "fold (\<lambda>(w, r) u. if u = w then r else u) tbl u = u
   \<or> fold (\<lambda>(w, r) u. if u = w then r else u) tbl u \<in> snd ` set tbl"
proof (induction tbl arbitrary: u)
  case Nil
  show ?case by simp
next
  case (Cons a tbl)
  obtain w r where a: "a = (w, r)" by (cases a)
  let ?st = "\<lambda>(w, r) u. if u = w then r else u"
  let ?u = "if u = w then r else u"
  have step: "fold ?st (a # tbl) u = fold ?st tbl ?u" using a by simp
  have u': "?u = u \<or> ?u = snd a" using a by simp
  from Cons[of ?u] show ?case
  proof
    assume h: "fold ?st tbl ?u = ?u"
    from u' show ?thesis
    proof
      assume "?u = u"
      then have "fold ?st (a # tbl) u = u" using step h by (simp only:)
      then show ?thesis by (rule disjI1)
    next
      assume "?u = snd a"
      then have "fold ?st (a # tbl) u = snd a" using step h by (simp only:)
      then have "fold ?st (a # tbl) u \<in> snd ` set (a # tbl)" by simp
      then show ?thesis by (rule disjI2)
    qed
  next
    assume "fold ?st tbl ?u \<in> snd ` set tbl"
    then have "fold ?st (a # tbl) u \<in> snd ` set (a # tbl)" using step by auto
    then show ?thesis by blast
  qed
qed

lemma fold_abbr_fixed:
  "u \<notin> fst ` set tbl \<Longrightarrow> fold (\<lambda>(w, r) u. if u = w then r else u) tbl u = u"
  by (induction tbl) (auto simp: image_iff)

lemma abbreviations_snd:
  "snd ` set abbreviations = set [''ave'', ''st'', ''dr'', ''blvd'', ''rd'', ''ln'', ''ct'', ''n'', ''s'', ''e'', ''w'', ''ne'', ''nw'', ''se'', ''sw'']"
  by (simp add: abbreviations_def)

lemma abbreviations_fst:
  "fst ` set abbreviations = set [''avenue'', ''street'', ''drive'', ''boulevard'', ''road'', ''lane'', ''court'', ''north'', ''south'', ''east'', ''west'', ''northeast'', ''northwest'', ''southeast'', ''southwest'']"
  by (simp add: abbreviations_def)

lemma abbreviations_disjoint: "r \<in> snd ` set abbreviations \<Longrightarrow> r \<notin> fst ` set abbreviations"
  unfolding abbreviations_snd abbreviations_fst by auto

lemma abbreviations_letters:
  "(w, r) \<in> set abbreviations \<Longrightarrow>
     w \<noteq> [] \<and> r \<noteq> [] \<and> set w \<subseteq> set ''abcdefghijklmnopqrstuvwxyz'' \<and> set r \<subseteq> set ''abcdefghijklmnopqrstuvwxyz''"
  by (auto simp: abbreviations_def)

lemma abbreviate_cases: "abbreviate u = u \<or> abbreviate u \<in> snd ` set abbreviations"
  unfolding abbreviate_def by (rule fold_abbr_cases)

lemma abbreviate_idem: "abbreviate (abbreviate u) = abbreviate u"
proof -
  from abbreviate_cases[of u] show ?thesis
  proof
    assume "abbreviate u = u"
    then show ?thesis by simp
  next
    assume "abbreviate u \<in> snd ` set abbreviations"
    then have "abbreviate u \<notin> fst ` set abbreviations" by (rule abbreviations_disjoint)
    then show ?thesis unfolding abbreviate_def[of "fold _ _ _"] abbreviate_def[symmetric]
      by (simp add: abbreviate_def fold_abbr_fixed)
  qed
qed

lemma abbreviate_all:
  assumes "\<forall>c\<in>set u. P c" and "\<forall>c\<in>set ''abcdefghijklmnopqrstuvwxyz''. P c"
  shows "\<forall>c\<in>set (abbreviate u). P c"
proof -
  from abbreviate_cases[of u] show ?thesis
  proof
    assume "abbreviate u = u"
    then show ?thesis using assms(1) by simp
  next
    assume "abbreviate u \<in> snd ` set abbreviations"
    then obtain w where "(w, abbreviate u) \<in> set abbreviations" by force
    then have "set (abbreviate u) \<subseteq> set ''abcdefghijklmnopqrstuvwxyz''"
      using abbreviations_letters by blast
    then show ?thesis using assms(2) by blast
  qed
qed

lemma abbreviate_word:
  assumes "u \<noteq> []" "\<forall>c\<in>set u. isWordChar c"
  shows "abbreviate u \<noteq> [] \<and> (\<forall>c\<in>set (abbreviate u). isWordChar c)"
proof -
  have "\<forall>c\<in>set (abbreviate u). isWordChar c"
    using abbreviate_all[of u isWordChar] assms(2) lower_letters by blast
  moreover have "abbreviate u \<noteq> []"
    using abbreviate_cases[of u] assms(1) abbreviations_letters by force
  ultimately show ?thesis by blast
qed

lemma fold_replaceWord_wordMap:
  assumes "\<forall>(w, r)\<in>set tbl. w \<noteq> [] \<and> (\<forall>c\<in>set w. isWordChar c) \<and> r \<noteq> [] \<and> (\<forall>c\<in>set r. isWordChar c)"
  shows "fold (\<lambda>(w, r) s. replaceWord w r False s) tbl s
         = wordMap (fold (\<lambda>(w, r) u. if u = w then r else u) tbl) s"
  using assms
proof (induction tbl arbitrary: s)
  case Nil
  have "fold (\<lambda>(w, r) u. if u = w then r else u) [] = (\<lambda>u. u)" by (simp add: fun_eq_iff)
  then show ?case by (simp add: wordMap_id)
next
  case (Cons a tbl)
  obtain w r where a: "a = (w, r)" by (cases a)
  from Cons.prems a have w: "w \<noteq> []" "\<forall>c\<in>set w. isWordChar c" and r: "r \<noteq> []" "\<forall>c\<in>set r. isWordChar c"
    by auto
  from Cons.prems have rest: "\<forall>(w, r)\<in>set tbl. w \<noteq> [] \<and> (\<forall>c\<in>set w. isWordChar c) \<and> r \<noteq> [] \<and> (\<forall>c\<in>set r. isWordChar c)"
    by simp
  let ?st = "\<lambda>(w, r) u. if u = w then r else u"
  have "fold (\<lambda>(w, r) s. replaceWord w r False s) (a # tbl) s
        = fold (\<lambda>(w, r) s. replaceWord w r False s) tbl (replaceWord w r False s)"
    using a by simp
  also have "\<dots> = wordMap (fold ?st tbl) (replaceWord w r False s)"
    by (rule Cons.IH[OF rest])
  also have "\<dots> = wordMap (fold ?st tbl) (wordMap (\<lambda>u. if u = w then r else u) s)"
    by (simp only: replaceWord_wordMap[OF w])
  also have "\<dots> = wordMap (\<lambda>u. fold ?st tbl (if u = w then r else u)) s"
    by (rule wordMap_comp) (use r in auto)
  also have "(\<lambda>u. fold ?st tbl (if u = w then r else u)) = fold ?st (a # tbl)"
    using a by (simp add: fun_eq_iff)
  finally show ?case .
qed

lemma normalizeAddress_wordMap:
  "normalizeAddress x = wordMap abbreviate (collapseSpaces (stripPunct (trim (toLowerCase x))))"
proof -
  have ok: "\<forall>(w, r)\<in>set abbreviations. w \<noteq> [] \<and> (\<forall>c\<in>set w. isWordChar c) \<and> r \<noteq> [] \<and> (\<forall>c\<in>set r. isWordChar c)"
    using abbreviations_letters lower_letters by blast
  have "abbreviate = fold (\<lambda>(w, r) u. if u = w then r else u) abbreviations"
    by (simp add: fun_eq_iff abbreviate_def)
  then show ?thesis
    unfolding normalizeAddress_def using fold_replaceWord_wordMap[OF ok] by simp
qed

subsection \<open>White space\<close>

lemma collapse_hd:
  "X = [] \<or> \<not> isWhiteSpace (hd X) \<Longrightarrow> collapseSpaces X = [] \<or> \<not> isWhiteSpace (hd (collapseSpaces X))"
  by (cases X) auto

lemma collapse_wsNormal: "wsNormal (collapseSpaces s)"
proof (induction s rule: collapseSpaces.induct)
  case 1
  show ?case by simp
next
  case (2 c cs)
  show ?case
  proof (cases "isWhiteSpace c")
    case True
    have "collapseSpaces (dropWhile isWhiteSpace cs) = []
          \<or> \<not> isWhiteSpace (hd (collapseSpaces (dropWhile isWhiteSpace cs)))"
      by (rule collapse_hd) (rule dropWhile_hd_stop)
    then show ?thesis using True 2(1) by auto
  next
    case False
    then show ?thesis using 2(2) by simp
  qed
qed

lemma wsNormal_collapse: "wsNormal s \<Longrightarrow> collapseSpaces s = s"
proof (induction s)
  case Nil
  show ?case by simp
next
  case (Cons c cs)
  then show ?case by (auto simp: dropWhile_stop)
qed

lemma wsNormal_append: "wsNormal (a @ b) \<Longrightarrow> wsNormal a \<and> wsNormal b"
proof (induction a)
  case Nil
  then show ?case by simp
next
  case (Cons c a)
  then show ?case by (cases a) (auto split: if_splits)
qed

lemma wsNormal_nows_prefix: "\<forall>c\<in>set v. \<not> isWhiteSpace c \<Longrightarrow> wsNormal (v @ X) = wsNormal X"
  by (induction v) auto

lemma wordMap_hd_ws:
  assumes pres: "\<And>u. u \<noteq> [] \<Longrightarrow> \<forall>c\<in>set u. isWordChar c \<Longrightarrow> f u \<noteq> [] \<and> (\<forall>c\<in>set (f u). isWordChar c)"
    and "X = [] \<or> \<not> isWhiteSpace (hd X)"
  shows "wordMap f X = [] \<or> \<not> isWhiteSpace (hd (wordMap f X))"
proof (cases X)
  case Nil
  then show ?thesis by simp
next
  case (Cons c cs)
  show ?thesis
  proof (cases "isWordChar c")
    case True
    have "f (c # takeWhile isWordChar cs) \<noteq> [] \<and> (\<forall>x\<in>set (f (c # takeWhile isWordChar cs)). isWordChar x)"
      using pres[of "c # takeWhile isWordChar cs"] word_run[OF True, of cs] by simp
    then have "isWordChar (hd (f (c # takeWhile isWordChar cs) @ wordMap f (dropWhile isWordChar cs)))"
      by (cases "f (c # takeWhile isWordChar cs)") auto
    then show ?thesis using Cons True word_not_ws by auto
  next
    case False
    then show ?thesis using Cons assms(2) by simp
  qed
qed

lemma wsNormal_wordMap:
  assumes pres: "\<And>u. u \<noteq> [] \<Longrightarrow> \<forall>c\<in>set u. isWordChar c \<Longrightarrow> f u \<noteq> [] \<and> (\<forall>c\<in>set (f u). isWordChar c)"
  shows "wsNormal s \<Longrightarrow> wsNormal (wordMap f s)"
proof (induction s rule: word_induct)
  case Nil
  show ?case by simp
next
  case (Word c cs)
  let ?u = "c # takeWhile isWordChar cs"
  let ?rest = "dropWhile isWordChar cs"
  have "wsNormal (?u @ ?rest)" using Word(3) by simp
  then have "wsNormal ?rest" using wsNormal_append by blast
  then have r: "wsNormal (wordMap f ?rest)" by (rule Word(2))
  have "\<forall>x\<in>set (f ?u). \<not> isWhiteSpace x"
    using pres[of ?u] word_run[OF Word(1), of cs] word_not_ws by auto
  then have "wsNormal (f ?u @ wordMap f ?rest)" using r by (simp only: wsNormal_nows_prefix)
  then show ?case using Word(1) by simp
next
  case (NonWord c cs)
  have tl: "wsNormal (wordMap f cs)" using NonWord by simp
  show ?case
  proof (cases "isWhiteSpace c")
    case True
    with NonWord(3) have "cs = [] \<or> \<not> isWhiteSpace (hd cs)" and "c = CHR '' ''" by auto
    then show ?thesis using wordMap_hd_ws[of f cs, OF pres] tl True NonWord(1) by auto
  next
    case False
    then show ?thesis using tl NonWord(1) by simp
  qed
qed

lemma collapse_all:
  "\<forall>c\<in>set s. P c \<Longrightarrow> P CHR '' '' \<Longrightarrow> \<forall>c\<in>set (collapseSpaces s). P c"
proof (induction s rule: collapseSpaces.induct)
  case 1
  show ?case by simp
next
  case (2 c cs)
  have "\<forall>x\<in>set (dropWhile isWhiteSpace cs). P x"
    using 2(3) by (auto dest: set_dropWhileD)
  then show ?case using 2 by auto
qed

subsection \<open>trim\<close>

lemma trimStart_decomp: "s = takeWhile isWhiteSpace s @ trimStart s"
  by (simp add: trimStart_def)

lemma trimEnd_decomp: "s = trimEnd s @ rev (takeWhile isWhiteSpace (rev s))"
proof -
  have "trimEnd s @ rev (takeWhile isWhiteSpace (rev s))
        = rev (takeWhile isWhiteSpace (rev s) @ dropWhile isWhiteSpace (rev s))"
    by (simp only: trimEnd_def rev_append)
  also have "\<dots> = rev (rev s)" by (simp only: takeWhile_dropWhile_id)
  finally show ?thesis by simp
qed

lemma trim_decomp:
  "\<exists>pre suf. s = pre @ trim s @ suf \<and> (\<forall>c\<in>set pre. isWhiteSpace c) \<and> (\<forall>c\<in>set suf. isWhiteSpace c)"
proof -
  let ?pre = "takeWhile isWhiteSpace s"
  let ?suf = "rev (takeWhile isWhiteSpace (rev (trimStart s)))"
  have "s = ?pre @ trimStart s" by (rule trimStart_decomp)
  also have "trimStart s = trim s @ ?suf" unfolding trim_def by (rule trimEnd_decomp)
  finally have "s = ?pre @ trim s @ ?suf" .
  moreover have "\<forall>c\<in>set ?pre. isWhiteSpace c" by (auto dest: set_takeWhileD)
  moreover have "\<forall>c\<in>set ?suf. isWhiteSpace c" by (auto dest: set_takeWhileD)
  ultimately show ?thesis by blast
qed

lemma set_trim: "set (trim s) \<subseteq> set s"
  using trim_decomp[of s] by (metis Un_upper1 Un_upper2 set_append subset_trans)

lemma ws_not_word: "isWhiteSpace c \<Longrightarrow> \<not> isWordChar c"
  using word_not_ws by blast

subsection \<open>The second application\<close>


lemma abbreviate_lower:
  assumes "\<forall>c\<in>set u. toLowerChar c = c"
  shows "\<forall>c\<in>set (abbreviate u). toLowerChar c = c"
proof (rule abbreviate_all[OF assms])
  show "\<forall>c\<in>set ''abcdefghijklmnopqrstuvwxyz''. toLowerChar c = c"
    using lower_letters by blast
qed

lemma abbreviate_nopunct:
  assumes "\<forall>c\<in>set u. c \<notin> {CHR ''.'', CHR '','', CHR ''#''}"
  shows "\<forall>c\<in>set (abbreviate u). c \<notin> {CHR ''.'', CHR '','', CHR ''#''}"
proof (rule abbreviate_all[of u "\<lambda>c. c \<notin> {CHR ''.'', CHR '','', CHR ''#''}", OF assms])
  show "\<forall>c\<in>set ''abcdefghijklmnopqrstuvwxyz''. c \<notin> {CHR ''.'', CHR '','', CHR ''#''}"
    by simp
qed

lemma normalizeAddress_twice: "normalizeAddress (normalizeAddress x) = trim (normalizeAddress x)"
proof -
  define Z where "Z = collapseSpaces (stripPunct (trim (toLowerCase x)))"
  define Y where "Y = normalizeAddress x"
  define T where "T = trim Y"
  let ?punct = "{CHR ''.'', CHR '','', CHR ''#''}"
  have Y: "Y = wordMap abbreviate Z" by (simp add: Y_def Z_def normalizeAddress_wordMap)
  \<comment> \<open>lower case\<close>
  have "\<forall>c\<in>set (toLowerCase x). toLowerChar c = c"
    by (auto simp: toLowerCase_def toLowerChar_idem)
  then have "\<forall>c\<in>set (stripPunct (trim (toLowerCase x))). toLowerChar c = c"
    using set_trim[of "toLowerCase x"] by (auto simp: stripPunct_def)
  then have Zl: "\<forall>c\<in>set Z. toLowerChar c = c"
    unfolding Z_def by (rule collapse_all) (rule toLowerChar_space)
  have Yl: "\<forall>c\<in>set Y. toLowerChar c = c"
    unfolding Y by (rule wordMap_all[OF Zl]) (rule abbreviate_lower)
  have lower: "toLowerCase Y = Y"
    unfolding toLowerCase_def using Yl by (simp add: map_idI)
  \<comment> \<open>punctuation\<close>
  have "\<forall>c\<in>set (stripPunct (trim (toLowerCase x))). c \<notin> ?punct"
    by (auto simp: stripPunct_def)
  then have Zp: "\<forall>c\<in>set Z. c \<notin> ?punct"
    unfolding Z_def by (rule collapse_all) simp
  have Yp: "\<forall>c\<in>set Y. c \<notin> ?punct"
    unfolding Y by (rule wordMap_all[of Z "\<lambda>c. c \<notin> ?punct", OF Zp]) (rule abbreviate_nopunct)
  have strip: "stripPunct T = T"
    unfolding T_def stripPunct_def using Yp set_trim[of Y] by (intro filter_True) blast
  \<comment> \<open>white space\<close>
  obtain pre suf where dec: "Y = pre @ T @ suf"
    and pre: "\<forall>c\<in>set pre. isWhiteSpace c" and suf: "\<forall>c\<in>set suf. isWhiteSpace c"
    using trim_decomp[of Y] T_def by blast
  have "wsNormal Z" unfolding Z_def by (rule collapse_wsNormal)
  have "wsNormal Y" unfolding Y
  proof (rule wsNormal_wordMap)
    show "wsNormal Z" by fact
  qed (rule abbreviate_word)
  then have "wsNormal T" using dec wsNormal_append by metis
  then have collapse: "collapseSpaces T = T" by (rule wsNormal_collapse)
  \<comment> \<open>words\<close>
  have "wordMap abbreviate Y = wordMap (\<lambda>u. abbreviate (abbreviate u)) Z"
    unfolding Y by (rule wordMap_comp) (rule abbreviate_word)
  then have fixY: "wordMap abbreviate Y = Y" by (simp add: abbreviate_idem Y)
  have "wordMap abbreviate Y = pre @ wordMap abbreviate (T @ suf)"
    unfolding dec using pre ws_not_word by (intro wordMap_nonword_prefix) blast
  also have "wordMap abbreviate (T @ suf) = wordMap abbreviate T @ suf"
    using suf ws_not_word by (intro wordMap_nonword_suffix) blast
  finally have "pre @ wordMap abbreviate T @ suf = pre @ T @ suf" using fixY dec by simp
  then have words: "wordMap abbreviate T = T" by simp
  have "normalizeAddress Y = wordMap abbreviate (collapseSpaces (stripPunct (trim (toLowerCase Y))))"
    by (rule normalizeAddress_wordMap)
  also have "\<dots> = T" by (simp only: lower T_def[symmetric] strip collapse words)
  finally show ?thesis by (simp only: Y_def T_def)
qed

lemma trim_id:
  assumes "s = [] \<or> (\<not> isWhiteSpace (hd s) \<and> \<not> isWhiteSpace (last s))"
  shows "trim s = s"
proof (cases "s = []")
  case True
  then show ?thesis by (simp add: trim_def trimStart_def trimEnd_def)
next
  case False
  with assms have h: "\<not> isWhiteSpace (hd s)" and l: "\<not> isWhiteSpace (last s)" by auto
  have a: "trimStart s = s" unfolding trimStart_def using h by (intro dropWhile_stop) simp
  have "\<not> isWhiteSpace (hd (rev s))" using l False by (simp add: hd_rev)
  then have "dropWhile isWhiteSpace (rev s) = rev s" by (intro dropWhile_stop) simp
  then have b: "trimEnd s = s" by (simp add: trimEnd_def)
  show ?thesis by (simp add: trim_def a b)
qed

lemma trim_trimmed:
  "trim s = [] \<or> (\<not> isWhiteSpace (hd (trim s)) \<and> \<not> isWhiteSpace (last (trim s)))"
proof (cases "trim s = []")
  case True
  then show ?thesis by simp
next
  case False
  let ?D = "trimStart s"
  have D: "?D = trim s @ rev (takeWhile isWhiteSpace (rev ?D))"
    unfolding trim_def by (rule trimEnd_decomp)
  have hdD: "hd ?D = hd (trim s)" using False D by (metis hd_append2)
  have "?D \<noteq> []" using False D by auto
  then have Dne: "dropWhile isWhiteSpace s \<noteq> []" unfolding trimStart_def .
  have "\<not> isWhiteSpace (hd (dropWhile isWhiteSpace s))" by (rule hd_dropWhile[OF Dne])
  then have h: "\<not> isWhiteSpace (hd (trim s))" using hdD unfolding trimStart_def by simp
  have r: "rev (trim s) = dropWhile isWhiteSpace (rev ?D)"
    by (simp add: trim_def trimEnd_def)
  have rne: "dropWhile isWhiteSpace (rev ?D) \<noteq> []" using False r by (metis rev_is_Nil_conv)
  have "\<not> isWhiteSpace (hd (rev (trim s)))"
    unfolding r by (rule hd_dropWhile[OF rne])
  then have "\<not> isWhiteSpace (last (trim s))" using False by (simp add: hd_rev)
  with h show ?thesis by blast
qed

lemma collapse_last:
  "s \<noteq> [] \<Longrightarrow> \<not> isWhiteSpace (last s) \<Longrightarrow> collapseSpaces s \<noteq> [] \<and> \<not> isWhiteSpace (last (collapseSpaces s))"
proof (induction s rule: collapseSpaces.induct)
  case 1
  then show ?case by simp
next
  case (2 c cs)
  show ?case
  proof (cases "isWhiteSpace c")
    case True
    let ?D = "dropWhile isWhiteSpace cs"
    from 2(4) True have cs: "cs \<noteq> []" by auto
    with 2(4) have l: "\<not> isWhiteSpace (last cs)" by simp
    have ne: "?D \<noteq> []"
    proof
      assume "?D = []"
      then have "\<forall>x\<in>set cs. isWhiteSpace x" by (simp add: dropWhile_eq_Nil_conv)
      then show False using l cs last_in_set by blast
    qed
    have "cs = takeWhile isWhiteSpace cs @ ?D" by simp
    then have "last cs = last ?D" using ne by (metis last_appendR)
    then have "collapseSpaces ?D \<noteq> [] \<and> \<not> isWhiteSpace (last (collapseSpaces ?D))"
      using 2(1)[OF True ne] l by simp
    then show ?thesis using True by simp
  next
    case False
    show ?thesis
    proof (cases "cs = []")
      case True
      then show ?thesis using False by simp
    next
      case ne: False
      then have "collapseSpaces cs \<noteq> [] \<and> \<not> isWhiteSpace (last (collapseSpaces cs))"
        using 2(2)[OF False ne] 2(4) by simp
      then show ?thesis using False by simp
    qed
  qed
qed

lemma wordMap_last:
  assumes pres: "\<And>u. u \<noteq> [] \<Longrightarrow> \<forall>c\<in>set u. isWordChar c \<Longrightarrow> f u \<noteq> [] \<and> (\<forall>c\<in>set (f u). isWordChar c)"
  shows "s \<noteq> [] \<Longrightarrow> \<not> isWhiteSpace (last s) \<Longrightarrow> wordMap f s \<noteq> [] \<and> \<not> isWhiteSpace (last (wordMap f s))"
proof (induction s rule: word_induct)
  case Nil
  then show ?case by simp
next
  case (Word c cs)
  let ?u = "c # takeWhile isWordChar cs"
  let ?rest = "dropWhile isWordChar cs"
  have fu: "f ?u \<noteq> [] \<and> (\<forall>x\<in>set (f ?u). isWordChar x)"
    using pres[of ?u] word_run[OF Word(1), of cs] by simp
  show ?case
  proof (cases "?rest = []")
    case True
    have "isWordChar (last (f ?u))" using fu last_in_set by blast
    then have nl: "\<not> isWhiteSpace (last (f ?u))" by (rule word_not_ws)
    have "wordMap f (c # cs) = f ?u @ wordMap f ?rest" using Word(1) by simp
    then have "wordMap f (c # cs) = f ?u" by (simp only: True wordMap.simps append_Nil2)
    then show ?thesis using nl fu by simp
  next
    case False
    have "c # cs = ?u @ ?rest" by simp
    then have "last (c # cs) = last ?rest" using False by (metis last_appendR)
    then have "wordMap f ?rest \<noteq> [] \<and> \<not> isWhiteSpace (last (wordMap f ?rest))"
      using Word(2)[OF False] Word(4) by simp
    then show ?thesis using Word(1) by simp
  qed
next
  case (NonWord c cs)
  show ?case
  proof (cases "cs = []")
    case True
    then show ?thesis using NonWord by simp
  next
    case False
    then have "wordMap f cs \<noteq> [] \<and> \<not> isWhiteSpace (last (wordMap f cs))"
      using NonWord(2)[OF False] NonWord(4) by simp
    then show ?thesis using NonWord(1) by simp
  qed
qed

lemma stripPunct_lower: "stripPunct x = x \<Longrightarrow> stripPunct (toLowerCase x) = toLowerCase x"
proof -
  assume "stripPunct x = x"
  then have "\<forall>c\<in>set x. c \<notin> {CHR ''.'', CHR '','', CHR ''#''}"
    unfolding stripPunct_def by (metis (mono_tags, lifting) filter_id_conv)
  then have "\<forall>c\<in>set (toLowerCase x). c \<notin> {CHR ''.'', CHR '','', CHR ''#''}"
    unfolding toLowerCase_def using toLowerChar_punct by auto
  then show ?thesis unfolding stripPunct_def by (intro filter_True) blast
qed

lemma normalizeAddress_trimmed:
  assumes "stripPunct x = x"
  shows "trim (normalizeAddress x) = normalizeAddress x"
proof -
  let ?t = "trim (toLowerCase x)"
  have "\<forall>c\<in>set (toLowerCase x). c \<notin> {CHR ''.'', CHR '','', CHR ''#''}"
    using stripPunct_lower[OF assms] unfolding stripPunct_def by (metis (mono_tags, lifting) filter_id_conv)
  then have sp: "stripPunct ?t = ?t"
    unfolding stripPunct_def using set_trim[of "toLowerCase x"] by (intro filter_True) blast
  have N: "normalizeAddress x = wordMap abbreviate (collapseSpaces ?t)"
    by (simp add: normalizeAddress_wordMap sp)
  show ?thesis
  proof (cases "?t = []")
    case True
    have "normalizeAddress x = []" by (simp only: N True collapseSpaces.simps wordMap.simps)
    then show ?thesis by (simp add: trim_def trimStart_def trimEnd_def)
  next
    case False
    with trim_trimmed[of "toLowerCase x"]
    have h: "\<not> isWhiteSpace (hd ?t)" and l: "\<not> isWhiteSpace (last ?t)" by auto
    have c: "collapseSpaces ?t \<noteq> [] \<and> \<not> isWhiteSpace (last (collapseSpaces ?t))"
      using collapse_last[OF False l] .
    have ch: "\<not> isWhiteSpace (hd (collapseSpaces ?t))"
      using collapse_hd[of ?t] h c by blast
    have w: "wordMap abbreviate (collapseSpaces ?t) \<noteq> [] \<and> \<not> isWhiteSpace (last (wordMap abbreviate (collapseSpaces ?t)))"
      using c by (intro wordMap_last abbreviate_word) auto
    have "wordMap abbreviate (collapseSpaces ?t) = [] \<or> \<not> isWhiteSpace (hd (wordMap abbreviate (collapseSpaces ?t)))"
      using ch by (intro wordMap_hd_ws abbreviate_word) auto
    with w show ?thesis unfolding N by (intro trim_id) blast
  qed
qed

section \<open>Properties of the ranking loop\<close>

















section \<open>Worked examples\<close>

lemma norm_oak_avenue: "normalizeAddress ''456 Oak Avenue'' = ''456 oak ave''"
  unfolding normalizeAddress_wordMap by code_simp

lemma norm_oak_ave: "normalizeAddress ''456 Oak Ave'' = ''456 oak ave''"
  unfolding normalizeAddress_wordMap by code_simp

lemma acme_street:
  "sfStreetOf \<lparr>Name = ''Acme Storage - 456 Oak Ave'', Year_Built__c = y, Net_RSF__c = f, ShippingAddress = JNull\<rparr>
   = JString ''456 Oak Ave''"
  by code_simp

lemma acme_brand: "sfStoreBrandOf ''Acme Storage - 456 Oak Ave'' = ''Acme Storage''"
  by code_simp

lemma acme_target: "trim (toLowerCase ''Acme'') = ''acme''"
  by code_simp

lemma acme_full: "fuzzyMatchScore ''acme'' (toLowerCase ''Acme Storage - 456 Oak Ave'') = 2 / 13"
  by code_simp

lemma acme_brand_score: "fuzzyMatchScore ''acme'' (toLowerCase ''Acme Storage'') = 1 / 3"
  by code_simp

lemma acme_address: "fuzzyMatchScore ''456 oak ave'' ''456 oak ave'' = 1"
  by code_simp

lemma acme_scoreRecord:
  "scoreRecord ''456 oak ave'' ''acme''
     \<lparr>Name = ''Acme Storage - 456 Oak Ave'', Year_Built__c = y, Net_RSF__c = f, ShippingAddress = JNull\<rparr>
   = Inr (Some \<lparr>Name = ''Acme Storage - 456 Oak Ave'', Year_Built__c = y, Net_RSF__c = f,
                 ShippingAddress = JNull, nameScore = 1 / 3, addressScore = 1, combinedScore = 11 / 15,
                 parsedStoreName = ''Acme Storage'', parsedAddress = ''456 Oak Ave''\<rparr>)"
  unfolding scoreRecord_def Let_def
  by (simp add: acme_street acme_brand acme_full acme_brand_score acme_address norm_oak_ave)

lemma acme_ranker:
  "getSalesforceMetadataByAddress
     \<lparr>street = ''456 Oak Avenue'', city = c, state = s, postalCode = p, storeName = Some ''Acme''\<rparr>
     [\<lparr>Name = ''Acme Storage - 456 Oak Ave'', Year_Built__c = y, Net_RSF__c = f, ShippingAddress = JNull\<rparr>]
   = Inr [\<lparr>Name = ''Acme Storage - 456 Oak Ave'', Year_Built__c = y, Net_RSF__c = f,
           ShippingAddress = JNull, nameScore = 1 / 3, addressScore = 1, combinedScore = 11 / 15,
           parsedStoreName = ''Acme Storage'', parsedAddress = ''456 Oak Ave''\<rparr>]"
  unfolding getSalesforceMetadataByAddress_def Let_def
  by (simp add: norm_oak_avenue acme_target acme_scoreRecord sortByScore_def)


lemma pine_strict: "jsonParse ''{'street': '789 Pine Rd', 'city': 'Metro'}'' = None"
  by code_simp

lemma pine_loose:
  "jsonParse (pythonToJson ''{'street': '789 Pine Rd', 'city': 'Metro'}'')
   = Some (JObject [(''street'', JString ''789 Pine Rd''), (''city'', JString ''Metro'')])"
  by code_simp




lemma year1850: "yearBuiltOf numberToString (JString ''1850'') = None"
  by code_simp

lemma year2005: "yearBuiltOf numberToString (JString ''2005'') = Some 2005"
  by code_simp

lemma yearBuiltOf_iff:
  "(yearBuiltOf numberToString raw = Some n) =
     (truthy raw \<and> parseInt10 (toStringJS numberToString raw) = Some n \<and> 1900 \<le> n \<and> n \<le> 2030)"
  by (auto simp: yearBuiltOf_def split: option.splits)

lemma squareFootageOf_iff:
  "(squareFootageOf numberToString raw = Some v) =
     (truthy raw \<and> parseFloat (toStringJS numberToString raw) = v \<and> v \<noteq> NaN \<and> greaterThanZero v)"
  by (auto simp: squareFootageOf_def Let_def)

lemma dot_once: "normalizeAddress ''12 Oak St .'' = ''12 oak st ''"
  unfolding normalizeAddress_wordMap by code_simp

lemma dot_twice: "normalizeAddress ''12 oak st '' = ''12 oak st''"
  unfolding normalizeAddress_wordMap by code_simp

section \<open>Claims\<close>

text \<open>
  Scores are exact rationals. Every score of the program is 0, 1, a quotient of two string
  lengths, or \<open>0.4 * n + 0.6 * a\<close> of two such values.
\<close>

text \<open>
  C1. For the query with store name \<open>Acme\<close> and street \<open>456 Oak Avenue\<close>, ranked against the single
  record named \<open>Acme Storage - 456 Oak Ave\<close> with no shipping address, the ranker returns one match;
  its address score is 1, both streets normalize to \<open>456 oak ave\<close>, and its combined score is at
  least 0.6. The other fields of the query and of the record are arbitrary.
\<close>

theorem ranker_acme:
  "\<exists>m. getSalesforceMetadataByAddress
          \<lparr>street = ''456 Oak Avenue'', city = c, state = s, postalCode = p, storeName = Some ''Acme''\<rparr>
          [\<lparr>Name = ''Acme Storage - 456 Oak Ave'', Year_Built__c = y, Net_RSF__c = f,
            ShippingAddress = JNull\<rparr>] = Inr [m]
       \<and> addressScore m = 1
       \<and> combinedScore m \<ge> 6 / 10
       \<and> parsedStoreName m = ''Acme Storage''
       \<and> parsedAddress m = ''456 Oak Ave''
       \<and> normalizeAddress ''456 Oak Avenue'' = ''456 oak ave''
       \<and> normalizeAddress (parsedAddress m) = ''456 oak ave''"
  by (simp add: acme_ranker norm_oak_avenue norm_oak_ave)







text \<open>
  C5. For a non-empty result array the client returns a match (\<open>matched\<close> is true) whatever
  the raw fields are. \<open>yearBuilt\<close> is a number exactly when the raw field is truthy and
  \<open>parseInt\<close> of it lies in [1900, 2030]; \<open>squareFootage\<close> is a number exactly when the raw field
  is truthy and \<open>parseFloat\<close> of it is a number greater than 0; otherwise the field is absent.
  The raw year \<open>"1850"\<close> becomes absent and \<open>"2005"\<close> becomes 2005.
\<close>

theorem metadata_sanitized:
  "\<exists>meta. apiGetSalesforceMetadataByAddress numberToString (record # rest) = Some meta
     \<and> matched meta
     \<and> matchScore meta = combinedScore record
     \<and> (\<forall>n. (yearBuilt meta = Some n) =
              (truthy (Year_Built__c record)
               \<and> parseInt10 (toStringJS numberToString (Year_Built__c record)) = Some n
               \<and> 1900 \<le> n \<and> n \<le> 2030))
     \<and> (\<forall>v. (squareFootage meta = Some v) =
              (truthy (Net_RSF__c record)
               \<and> parseFloat (toStringJS numberToString (Net_RSF__c record)) = v
               \<and> v \<noteq> NaN \<and> greaterThanZero v))
     \<and> yearBuiltOf numberToString (JString ''1850'') = None
     \<and> yearBuiltOf numberToString (JString ''2005'') = Some 2005"
  by (simp add: apiGetSalesforceMetadataByAddress_def yearBuiltOf_iff squareFootageOf_iff
        year1850 year2005)

theorem metadata_sanitized_witness:
  "\<exists>meta. apiGetSalesforceMetadataByAddress (\<lambda>v. []) [acmeMatch] = Some meta
     \<and> matched meta \<and> yearBuilt meta = Some 2005 \<and> squareFootage meta = None"
proof -
  have y: "yearBuiltOf (\<lambda>v. []) (Year_Built__c acmeMatch) = Some 2005"
    by (simp add: acmeMatch_def year2005)
  have f: "squareFootageOf (\<lambda>v. []) (Net_RSF__c acmeMatch) = None"
    by (simp add: acmeMatch_def squareFootageOf_def)
  from metadata_sanitized[of "\<lambda>v. []" acmeMatch "[]"] obtain meta where
    m: "apiGetSalesforceMetadataByAddress (\<lambda>v. []) [acmeMatch] = Some meta" and "matched meta" by blast
  then show ?thesis using y f by (auto simp: apiGetSalesforceMetadataByAddress_def)
qed

text \<open>
  C6, as stated: \<open>normalizeAddress (normalizeAddress x) = normalizeAddress x\<close> for every string.
  It fails at \<open>12 Oak St .\<close>: the string is trimmed before the punctuation is removed, so the
  first application leaves the space before the dot at the end, and the second removes it.
\<close>

theorem normalizeAddress_not_idempotent:
  "normalizeAddress (normalizeAddress ''12 Oak St .'') \<noteq> normalizeAddress ''12 Oak St .''"
  by (simp add: dot_once dot_twice)

text \<open>
  C6, amended. A second application of \<open>normalizeAddress\<close> only trims the result of the first:
  \<open>normalizeAddress (normalizeAddress x) = trim (normalizeAddress x)\<close>. For every string
  without the characters \<open>.\<close>, \<open>,\<close> and \<open>#\<close> the normalizer is idempotent.
\<close>

theorem normalizeAddress_idempotent_amended:
  "normalizeAddress (normalizeAddress x) = trim (normalizeAddress x)
   \<and> (stripPunct x = x \<longrightarrow> normalizeAddress (normalizeAddress x) = normalizeAddress x)"
  using normalizeAddress_twice[of x] normalizeAddress_trimmed[of x] by simp

theorem normalizeAddress_idempotent_amended_witness:
  "stripPunct ''456 Oak Avenue'' = ''456 Oak Avenue''
   \<and> normalizeAddress (normalizeAddress ''456 Oak Avenue'') = normalizeAddress ''456 Oak Avenue''
   \<and> normalizeAddress (normalizeAddress ''12 Oak St .'') = trim (normalizeAddress ''12 Oak St .'')"
proof -
  have s: "stripPunct ''456 Oak Avenue'' = ''456 Oak Avenue''" by (simp add: stripPunct_def)
  have a: "normalizeAddress (normalizeAddress ''456 Oak Avenue'') = normalizeAddress ''456 Oak Avenue''"
    using s normalizeAddress_idempotent_amended[of "''456 Oak Avenue''"] by blast
  have b: "normalizeAddress (normalizeAddress ''12 Oak St .'') = trim (normalizeAddress ''12 Oak St .'')"
    using normalizeAddress_idempotent_amended[of "''12 Oak St .''"] by blast
  show ?thesis using s a b by blast
qed

text \<open>
  C7. The fuzzy string scorer is symmetric: for every pair of strings \<open>a\<close> and \<open>b\<close>,
  \<open>fuzzyMatchScore a b\<close> equals \<open>fuzzyMatchScore b a\<close>. The two sides are the same quotient of
  two integers, so they also agree as doubles.
\<close>

theorem fuzzyMatchScore_symmetric: "fuzzyMatchScore a b = fuzzyMatchScore b a"
  by (rule fuzzy_sym)

text \<open>
  C8. \<open>fuzzyMatchScore a b\<close> lies in [0, 1]. It is 0 when one of the strings is empty; otherwise,
  with \<open>s1\<close> and \<open>s2\<close> the lowercased, trimmed strings, it is 1 when they are equal, the
  quotient of the shorter by the longer length when one contains the other, and
  \<open>1 - editDistance s1 s2 / max (length s1) (length s2)\<close> in the remaining case, where
  \<open>editDistance\<close> is the Levenshtein distance.
\<close>

theorem fuzzyMatchScore_unit_interval:
  "(let s1 = trim (toLowerCase a); s2 = trim (toLowerCase b) in
    0 \<le> fuzzyMatchScore a b \<and> fuzzyMatchScore a b \<le> 1
    \<and> (a = [] \<or> b = [] \<longrightarrow> fuzzyMatchScore a b = 0)
    \<and> (a \<noteq> [] \<and> b \<noteq> [] \<and> s1 = s2 \<longrightarrow> fuzzyMatchScore a b = 1)
    \<and> (a \<noteq> [] \<and> b \<noteq> [] \<and> s1 \<noteq> s2 \<and> (includesStr s1 s2 \<or> includesStr s2 s1) \<longrightarrow>
         fuzzyMatchScore a b = of_nat (min (length s1) (length s2)) / of_nat (max (length s1) (length s2)))
    \<and> (a \<noteq> [] \<and> b \<noteq> [] \<and> s1 \<noteq> s2 \<and> \<not> includesStr s1 s2 \<and> \<not> includesStr s2 s1 \<longrightarrow>
         fuzzyMatchScore a b
           = 1 - of_nat (editDistance s1 s2) / of_nat (max (length s1) (length s2))))"
  using fuzzy_range[of a b] by (simp add: Let_def fuzzy_scoreOf scoreOf_def)

theorem fuzzyMatchScore_unit_interval_witness:
  "fuzzyMatchScore [] ''oak'' = 0
   \<and> fuzzyMatchScore ''Oak'' '' oak '' = 1
   \<and> fuzzyMatchScore ''Acme'' ''Acme Storage'' = 4 / 12
   \<and> fuzzyMatchScore ''main'' ''mann'' = 1 - 1 / 4"
proof -
  have t1: "trim (toLowerCase ''Oak'') = ''oak''" and t2: "trim (toLowerCase '' oak '') = ''oak''"
    and t3: "trim (toLowerCase ''Acme'') = ''acme''"
    and t4: "trim (toLowerCase ''Acme Storage'') = ''acme storage''"
    and t5: "trim (toLowerCase ''main'') = ''main''" and t6: "trim (toLowerCase ''mann'') = ''mann''"
    by code_simp+
  have i: "includesStr ''acme storage'' ''acme''" "\<not> includesStr ''main'' ''mann''"
    "\<not> includesStr ''mann'' ''main''"
    by code_simp+
  have d: "editDistance ''main'' ''mann'' = 1" by code_simp
  show ?thesis
    using fuzzyMatchScore_unit_interval[of "[]" "''oak''"]
      fuzzyMatchScore_unit_interval[of "''Oak''" "'' oak ''"]
      fuzzyMatchScore_unit_interval[of "''Acme''" "''Acme Storage''"]
      fuzzyMatchScore_unit_interval[of "''main''" "''mann''"]
    by (simp add: Let_def t1 t2 t3 t4 t5 t6 i d)
qed

text \<open>
  C9. For the record named \<open>X\<close> whose \<open>ShippingAddress\<close> is the text
  \<open>{'street': '789 Pine Rd', 'city': 'Metro'}\<close>, the strict parse fails, the parse after the
  replacement of the single quotes yields the mapping, and the loop works with the brand \<open>X\<close>
  and the street \<open>789 Pine Rd\<close>.
\<close>

theorem pine_loose_dialect:
  "jsonParse ''{'street': '789 Pine Rd', 'city': 'Metro'}'' = None
   \<and> parsePythonDict (JString ''{'street': '789 Pine Rd', 'city': 'Metro'}'')
       = JObject [(''street'', JString ''789 Pine Rd''), (''city'', JString ''Metro'')]
   \<and> sfStreetOf \<lparr>Name = ''X'', Year_Built__c = y, Net_RSF__c = f,
                   ShippingAddress = JString ''{'street': '789 Pine Rd', 'city': 'Metro'}''\<rparr>
       = JString ''789 Pine Rd''
   \<and> sfStoreBrandOf ''X'' = ''X''"
proof -
  have p: "parsePythonDict (JString ''{'street': '789 Pine Rd', 'city': 'Metro'}'')
           = JObject [(''street'', JString ''789 Pine Rd''), (''city'', JString ''Metro'')]"
    by (simp add: parsePythonDict_def pine_strict pine_loose)
  have b: "sfStoreBrandOf ''X'' = ''X''" by code_simp
  show ?thesis using p b pine_strict by (simp add: sfStreetOf_def)
qed



end
